theory Spec2Isabelle
  imports Main "HOL-Library.AList"
begin

section \<open>Python values and string helpers\<close>

text \<open>
  The program is one Python module, \<^verbatim>\<open>sync_dd_from_file.py\<close>.  Its records are
  untyped dictionaries whose values are strings or \<^verbatim>\<open>None\<close>.  A Python value that
  is a string or \<^verbatim>\<open>None\<close> is a \<open>string option\<close>, with \<open>None\<close> for \<^verbatim>\<open>None\<close>.
  Where the program reads a key only with \<^verbatim>\<open>d.get(key)\<close> or tests the value for
  truth, an absent key and the value \<^verbatim>\<open>None\<close> behave alike and the field is a
  \<open>string option\<close>.  Where it reads with a default, \<^verbatim>\<open>d.get(key, '')\<close>, and compares
  the result, the two differ, and the field is a \<open>string option option\<close>: the outer
  \<open>None\<close> is the absent key, \<open>Some None\<close> the key present with the value \<^verbatim>\<open>None\<close>.

  Exceptions are values: a function that can raise returns \<open>py_error + 'a\<close>.
\<close>

datatype py_error = AttributeError | IndexError

text \<open>Python truthiness of a value that is a string or \<^verbatim>\<open>None\<close>.\<close>

definition truthy :: "string option \<Rightarrow> bool" where
  "truthy v = (case v of None \<Rightarrow> False | Some s \<Rightarrow> s \<noteq> [])"

text \<open>\<^verbatim>\<open>d.get(key, default)\<close>.\<close>

definition get_default :: "'a option \<Rightarrow> 'a \<Rightarrow> 'a" where
  "get_default v d = (case v of None \<Rightarrow> d | Some x \<Rightarrow> x)"

text \<open>\<^verbatim>\<open>s.startswith(p)\<close>.\<close>

definition startswith :: "string \<Rightarrow> string \<Rightarrow> bool" where
  "startswith s p = (take (length p) s = p)"

text \<open>\<^verbatim>\<open>s.split(c, 1)\<close>: split at the first occurrence of \<open>c\<close> only.\<close>

definition split_maxsplit1 :: "char \<Rightarrow> string \<Rightarrow> string list" where
  "split_maxsplit1 c s =
     (if c \<in> set s
      then [takeWhile (\<lambda>x. x \<noteq> c) s, tl (dropWhile (\<lambda>x. x \<noteq> c) s)]
      else [s])"

text \<open>\<^verbatim>\<open>xs[1]\<close>, which raises \<^verbatim>\<open>IndexError\<close> on a list shorter than two.\<close>

definition index1 :: "'a list \<Rightarrow> py_error + 'a" where
  "index1 xs = (case xs of _ # y # _ \<Rightarrow> Inr y | _ \<Rightarrow> Inl IndexError)"

text \<open>\<^verbatim>\<open>s.split(c)[0]\<close>: the part of \<open>s\<close> before the first \<open>c\<close> (all of \<open>s\<close> without one).\<close>

definition split_first :: "char \<Rightarrow> string \<Rightarrow> string" where
  "split_first c s = takeWhile (\<lambda>x. x \<noteq> c) s"

text \<open>
  \<^verbatim>\<open>s.lower()\<close> on the ASCII letters.  HOL characters are bytes; Python lower-cases
  every Unicode letter.  No theorem below depends on which letters are folded.
\<close>

definition lower_char :: "char \<Rightarrow> char" where
  "lower_char c =
     (case map_of (zip ''ABCDEFGHIJKLMNOPQRSTUVWXYZ'' ''abcdefghijklmnopqrstuvwxyz'') c of
        None \<Rightarrow> c
      | Some l \<Rightarrow> l)"

definition lower :: "string \<Rightarrow> string" where
  "lower s = map lower_char s"

text \<open>\<^verbatim>\<open>s.replace(a, b)\<close> for single characters.\<close>

definition replace_char :: "char \<Rightarrow> char \<Rightarrow> string \<Rightarrow> string" where
  "replace_char a b s = map (\<lambda>c. if c = a then b else c) s"

text \<open>\<^verbatim>\<open>s.strip(chars)\<close>: drop the characters of \<open>cs\<close> from both ends.\<close>

definition strip_chars :: "char list \<Rightarrow> string \<Rightarrow> string" where
  "strip_chars cs s =
     rev (dropWhile (\<lambda>c. c \<in> set cs) (rev (dropWhile (\<lambda>c. c \<in> set cs) s)))"

text \<open>
  The ASCII whitespace removed by \<^verbatim>\<open>s.strip()\<close>: space, tab, LF, VT, FF, CR and the
  separators FS, GS, RS, US.  Python removes the whitespace beyond ASCII as well.
\<close>

definition whitespace :: "char list" where
  "whitespace = [CHR 0x20, CHR 0x09, CHR 0x0A, CHR 0x0B, CHR 0x0C, CHR 0x0D,
                 CHR 0x1C, CHR 0x1D, CHR 0x1E, CHR 0x1F]"


section \<open>Data model\<close>

text \<open>
  A group of the source directory, as \<^verbatim>\<open>get_ldap_dynamic_groups\<close> returns it: every
  requested attribute is a string or \<^verbatim>\<open>None\<close>.
\<close>

record ad_group =
  objectGUID :: "string option"
  displayName :: "string option"
  mail :: "string option"
  description :: "string option"

text \<open>
  A group of the target service, as \<^verbatim>\<open>get_all_groups_from_api360\<close> returns it.  The
  fields are the keys \<^verbatim>\<open>id\<close>, \<^verbatim>\<open>externalId\<close>, \<^verbatim>\<open>name\<close>, \<^verbatim>\<open>label\<close> and
  \<^verbatim>\<open>description\<close> (prefixed here, \<open>id\<close> being a HOL constant).  The last three are
  compared with the values expected from the source group, so for them a key that is
  absent and a key that holds \<^verbatim>\<open>None\<close> are kept apart.  The \<^verbatim>\<open>externalId\<close> is taken
  to be a string when the key is present.
\<close>

record y360_group =
  y_id :: "int option"
  y_externalId :: "string option"
  y_name :: "string option option"
  y_label :: "string option option"
  y_description :: "string option option"

text \<open>
  A user of the target service: keys \<^verbatim>\<open>id\<close>, \<^verbatim>\<open>nickname\<close> and \<^verbatim>\<open>aliases\<close>.  The
  program reads the aliases with \<^verbatim>\<open>user.get('aliases', [])\<close> and iterates them only
  when the value is truthy, so an absent key, \<^verbatim>\<open>None\<close> and the empty list behave alike
  and are all the empty list here.  Group members (the \<^verbatim>\<open>users\<close> of
  \<^verbatim>\<open>get_group_members_by_api\<close>) are dictionaries of the same shape whose aliases are
  never read.
\<close>

record y360_user =
  u_id :: "string option"
  u_nickname :: "string option"
  u_aliases :: "string list"

text \<open>A Python dictionary with string keys and values, in insertion order.\<close>

type_synonym dict = "(string \<times> string) list"

text \<open>
  The calls of the remote layer.  \<^verbatim>\<open>member_type\<close> is always \<^verbatim>\<open>'user'\<close> and is left
  out.
\<close>

datatype remote_call =
    CreateGroup dict
  | PatchGroup "int option" dict
  | DeleteGroup "int option"
  | GetMembers "int option"
  | AddMember "int option" "string option"
  | DeleteMember "int option" "string option"

text \<open>
  The remote layer is a collaborator: each of its functions is a parameter that maps
  the calls this run has issued so far and the arguments of the call to what the
  function returns.  Only the parts of the return values that the program reads are
  kept: \<^verbatim>\<open>success\<close>, and \<^verbatim>\<open>result.get('removed')\<close>, \<^verbatim>\<open>members.get('users', [])\<close>,
  \<^verbatim>\<open>result.get('added')\<close>, \<^verbatim>\<open>result.get('deleted')\<close>.
\<close>

record api =
  create_group_by_api :: "remote_call list \<Rightarrow> dict \<Rightarrow> bool"
  patch_group_by_api :: "remote_call list \<Rightarrow> int option \<Rightarrow> dict \<Rightarrow> bool"
  delete_group_by_api :: "remote_call list \<Rightarrow> int option \<Rightarrow> bool \<times> bool"
  get_group_members_by_api :: "remote_call list \<Rightarrow> int option \<Rightarrow> bool \<times> y360_user list"
  add_member_to_group_by_api ::
    "remote_call list \<Rightarrow> int option \<Rightarrow> string option \<Rightarrow> bool \<times> bool"
  delete_member_from_group_by_api ::
    "remote_call list \<Rightarrow> int option \<Rightarrow> string option \<Rightarrow> bool \<times> bool"


section \<open>Group synchronisation: \<^verbatim>\<open>sync_ad_groups_to_y360\<close>\<close>

text \<open>The statistics dictionary of \<^verbatim>\<open>sync_ad_groups_to_y360\<close>.\<close>

record group_stats =
  ad_groups_count :: nat
  y360_groups_count :: nat
  created_count :: nat
  updated_count :: nat
  deleted_count :: nat
  errors_count :: nat
  skipped_count :: nat

text \<open>An entry of the list \<^verbatim>\<open>groups_to_delete\<close>.\<close>

record group_to_delete =
  d_id :: "int option"
  d_name :: "string option"
  d_externalId :: string
  d_objectGUID :: string

text \<open>
  The mutating decisions of a run.  The program announces each one through the logger,
  in dry-run mode as well; the model records them in the order taken.
\<close>

datatype decision =
    Create dict
  | Update y360_group dict
  | Delete group_to_delete

text \<open>
  The state of a run: the statistics, extended by the decisions taken and the remote
  calls issued so far.
\<close>

record gstate = group_stats +
  decisions :: "decision list"
  calls :: "remote_call list"

definition init_gstate :: gstate where
  "init_gstate =
     \<lparr>ad_groups_count = 0, y360_groups_count = 0, created_count = 0, updated_count = 0,
      deleted_count = 0, errors_count = 0, skipped_count = 0, decisions = [], calls = []\<rparr>"

text \<open>The index of the target groups by \<^verbatim>\<open>externalId\<close>; a later group overwrites.\<close>

definition y360_groups_by_external_id :: "y360_group list \<Rightarrow> (string \<rightharpoonup> y360_group)" where
  "y360_groups_by_external_id y360_groups =
     foldl (\<lambda>idx group.
              let external_id = get_default (y_externalId group) []
              in if external_id \<noteq> [] then idx(external_id \<mapsto> group) else idx)
           Map.empty y360_groups"

text \<open>
  The expected values of the loop body:
  \<^verbatim>\<open>mail.split('@')[0] if mail and '@' in mail else None\<close> (the mail is truthy where
  this is computed) and \<^verbatim>\<open>description if description else ""\<close>.
\<close>

definition expected_label :: "string \<Rightarrow> string option" where
  "expected_label mail_v =
     (if mail_v \<noteq> [] \<and> CHR ''@'' \<in> set mail_v
      then Some (split_first CHR ''@'' mail_v) else None)"

definition expected_description :: "string option \<Rightarrow> string" where
  "expected_description description_v =
     (if truthy description_v then get_default description_v [] else [])"

text \<open>
  The dictionary \<^verbatim>\<open>changes_needed\<close> for a source group matched to a target group.
  Each target value is read with \<^verbatim>\<open>y360_group.get(key, '')\<close>, which gives the empty
  string for an absent key and \<^verbatim>\<open>None\<close> for a key that holds \<^verbatim>\<open>None\<close>, and is compared
  with \<^verbatim>\<open>!=\<close> to a string; \<^verbatim>\<open>None\<close> differs from every string.
\<close>

definition changes_needed :: "string \<Rightarrow> string option \<Rightarrow> string \<Rightarrow> y360_group \<Rightarrow> dict" where
  "changes_needed display_name exp_label exp_description y360_group =
     (let c0 = [];
          y360_name = get_default (y_name y360_group) (Some []);
          c1 = (if y360_name \<noteq> Some display_name
                then AList.update ''name'' display_name c0 else c0);
          y360_label = get_default (y_label y360_group) (Some []);
          c2 = (case exp_label of
                  None \<Rightarrow> c1
                | Some l \<Rightarrow>
                    if l \<noteq> [] then
                      (if y360_label \<noteq> Some l then AList.update ''label'' l c1 else c1)
                    else c1);
          y360_description = get_default (y_description y360_group) (Some []);
          c3 = (if y360_description \<noteq> Some exp_description
                then AList.update ''description'' exp_description c2 else c2)
      in c3)"

text \<open>The block that applies a non-empty \<^verbatim>\<open>changes_needed\<close>.\<close>

definition do_update :: "api \<Rightarrow> bool \<Rightarrow> y360_group \<Rightarrow> dict \<Rightarrow> gstate \<Rightarrow> gstate" where
  "do_update api dry_run y360_group changes st =
     (let group_id = y_id y360_group;
          st1 = st\<lparr>decisions := decisions st @ [Update y360_group changes]\<rparr>
      in if \<not> dry_run then
           (let success = patch_group_by_api api (calls st1) group_id changes;
                st2 = st1\<lparr>calls := calls st1 @ [PatchGroup group_id changes]\<rparr>
            in if success then st2\<lparr>updated_count := updated_count st2 + 1\<rparr>
               else st2\<lparr>errors_count := errors_count st2 + 1\<rparr>)
         else st1\<lparr>updated_count := updated_count st1 + 1\<rparr>)"

text \<open>The dictionary \<^verbatim>\<open>group_data\<close> of a group to create.\<close>

definition group_data :: "string \<Rightarrow> string \<Rightarrow> string \<Rightarrow> string option \<Rightarrow> dict" where
  "group_data display_name external_id mail_v description_v =
     (let d0 = [(''name'', display_name), (''externalId'', external_id)];
          d1 = (if mail_v \<noteq> [] then
                  (if CHR ''@'' \<in> set mail_v
                   then AList.update ''label'' (split_first CHR ''@'' mail_v) d0 else d0)
                else d0);
          d2 = (case description_v of
                  None \<Rightarrow> d1
                | Some d \<Rightarrow> if d \<noteq> [] then AList.update ''description'' d d1 else d1)
      in d2)"

text \<open>The block that creates a group.\<close>

definition do_create :: "api \<Rightarrow> bool \<Rightarrow> dict \<Rightarrow> gstate \<Rightarrow> gstate" where
  "do_create api dry_run gd st =
     (let st1 = st\<lparr>decisions := decisions st @ [Create gd]\<rparr>
      in if \<not> dry_run then
           (let success = create_group_by_api api (calls st1) gd;
                st2 = st1\<lparr>calls := calls st1 @ [CreateGroup gd]\<rparr>
            in if success then st2\<lparr>created_count := created_count st2 + 1\<rparr>
               else st2\<lparr>errors_count := errors_count st2 + 1\<rparr>)
         else st1\<lparr>created_count := created_count st1 + 1\<rparr>)"

text \<open>The body of the loop over the source groups.\<close>

definition process_ad_group ::
  "api \<Rightarrow> bool \<Rightarrow> (string \<rightharpoonup> y360_group) \<Rightarrow> gstate \<Rightarrow> ad_group \<Rightarrow> gstate" where
  "process_ad_group api dry_run by_external_id st ad_grp =
     (case objectGUID ad_grp of
        None \<Rightarrow> st\<lparr>skipped_count := skipped_count st + 1\<rparr>
      | Some object_guid \<Rightarrow>
        if object_guid = [] then st\<lparr>skipped_count := skipped_count st + 1\<rparr>
        else
        (case displayName ad_grp of
           None \<Rightarrow> st\<lparr>skipped_count := skipped_count st + 1\<rparr>
         | Some display_name \<Rightarrow>
           if display_name = [] then st\<lparr>skipped_count := skipped_count st + 1\<rparr>
           else
           (case mail ad_grp of
              None \<Rightarrow> st\<lparr>skipped_count := skipped_count st + 1\<rparr>
            | Some mail_v \<Rightarrow>
              if mail_v = [] then st\<lparr>skipped_count := skipped_count st + 1\<rparr>
              else
              (let external_id = ''DDG;'' @ object_guid
               in case by_external_id external_id of
                    Some y360_group \<Rightarrow>
                      (let changes = changes_needed display_name (expected_label mail_v)
                                       (expected_description (description ad_grp))
                                       y360_group
                       in if changes \<noteq> []
                          then do_update api dry_run y360_group changes st else st)
                  | None \<Rightarrow>
                      do_create api dry_run
                        (group_data display_name external_id mail_v (description ad_grp))
                        st))))"

text \<open>The set \<^verbatim>\<open>ad_object_guids\<close>; only membership in it is ever tested.\<close>

definition ad_object_guids :: "ad_group list \<Rightarrow> string list" where
  "ad_object_guids ad_groups =
     foldl (\<lambda>acc ad_grp.
              case objectGUID ad_grp of
                None \<Rightarrow> acc
              | Some object_guid \<Rightarrow>
                  if object_guid \<noteq> [] then List.insert object_guid acc else acc)
           [] ad_groups"

text \<open>What the deletion scan does with one target group.\<close>

definition delete_candidate :: "string list \<Rightarrow> y360_group \<Rightarrow> group_to_delete option" where
  "delete_candidate guids y360_group =
     (let external_id = get_default (y_externalId y360_group) []
      in if startswith external_id ''DDG;'' then
           (case index1 (split_maxsplit1 CHR '';'' external_id) of
              Inl _ \<Rightarrow> None
            | Inr object_guid \<Rightarrow>
                if object_guid \<notin> set guids
                then Some \<lparr>d_id = y_id y360_group,
                           d_name = get_default (y_name y360_group) None,
                           d_externalId = external_id, d_objectGUID = object_guid\<rparr>
                else None)
         else None)"

text \<open>The list \<^verbatim>\<open>groups_to_delete\<close>.\<close>

definition groups_to_delete :: "string list \<Rightarrow> y360_group list \<Rightarrow> group_to_delete list" where
  "groups_to_delete guids y360_groups = List.map_filter (delete_candidate guids) y360_groups"

text \<open>The body of the loop over \<^verbatim>\<open>groups_to_delete\<close>.\<close>

definition do_delete :: "api \<Rightarrow> bool \<Rightarrow> gstate \<Rightarrow> group_to_delete \<Rightarrow> gstate" where
  "do_delete api dry_run st grp =
     (let st1 = st\<lparr>decisions := decisions st @ [Delete grp]\<rparr>
      in if \<not> dry_run then
           (let (success, removed) = delete_group_by_api api (calls st1) (d_id grp);
                st2 = st1\<lparr>calls := calls st1 @ [DeleteGroup (d_id grp)]\<rparr>
            in if success \<and> removed then st2\<lparr>deleted_count := deleted_count st2 + 1\<rparr>
               else st2\<lparr>errors_count := errors_count st2 + 1\<rparr>)
         else st1\<lparr>deleted_count := deleted_count st1 + 1\<rparr>)"

text \<open>
  The whole run.  The arguments are the lists after the first lines of the function
  have replaced \<^verbatim>\<open>None\<close> by the empty list.  The pauses between remote calls
  (\<^verbatim>\<open>time.sleep\<close>) and the log lines have no effect on the result.
\<close>

definition sync_ad_groups_run ::
  "api \<Rightarrow> bool \<Rightarrow> ad_group list \<Rightarrow> y360_group list \<Rightarrow> gstate" where
  "sync_ad_groups_run api dry_run ad_groups y360_groups =
     (if ad_groups = [] then init_gstate
      else
        (let st0 = init_gstate\<lparr>ad_groups_count := length ad_groups,
                               y360_groups_count := length y360_groups\<rparr>;
             by_external_id = y360_groups_by_external_id y360_groups;
             st1 = foldl (process_ad_group api dry_run by_external_id) st0 ad_groups;
             to_delete = groups_to_delete (ad_object_guids ad_groups) y360_groups
         in foldl (do_delete api dry_run) st1 to_delete))"

text \<open>The value the function returns: \<^verbatim>\<open>(success, stats)\<close>.\<close>

definition sync_ad_groups_to_y360 ::
  "api \<Rightarrow> bool \<Rightarrow> ad_group list \<Rightarrow> y360_group list \<Rightarrow> bool \<times> group_stats" where
  "sync_ad_groups_to_y360 api dry_run ad_groups y360_groups =
     (let st = sync_ad_groups_run api dry_run ad_groups y360_groups
      in (errors_count st = 0, group_stats.truncate st))"


section \<open>Membership synchronisation: \<^verbatim>\<open>sync_group_members\<close>\<close>

text \<open>The statistics dictionary of \<^verbatim>\<open>sync_group_members\<close>; its key
  \<^verbatim>\<open>errors_count\<close> is \<open>member_errors_count\<close> here.\<close>

record member_stats =
  y360_groups_processed :: nat
  ad_groups_found :: nat
  users_added_count :: nat
  users_removed_count :: nat
  users_not_found_count :: nat
  member_errors_count :: nat
  skipped_groups_count :: nat

text \<open>An entry of \<^verbatim>\<open>users_to_add\<close> or \<^verbatim>\<open>users_to_remove\<close>.\<close>

record user_info =
  nickname :: string
  user_id :: "string option"

text \<open>The membership decisions of a run, each with the id of the group concerned.\<close>

datatype member_decision =
    AddUser "int option" user_info
  | RemoveUser "int option" user_info

text \<open>
  The state of a run.  \<open>raised\<close> holds the exception that ended the run, if one was
  raised: nothing in \<^verbatim>\<open>sync_group_members\<close> catches it, so the rest of the loop is
  not executed.
\<close>

record mstate = member_stats +
  member_decisions :: "member_decision list"
  member_calls :: "remote_call list"
  raised :: "py_error option"

definition init_mstate :: mstate where
  "init_mstate =
     \<lparr>y360_groups_processed = 0, ad_groups_found = 0, users_added_count = 0,
      users_removed_count = 0, users_not_found_count = 0, member_errors_count = 0,
      skipped_groups_count = 0, member_decisions = [], member_calls = [], raised = None\<rparr>"

subsection \<open>The membership files\<close>

text \<open>
  The directory \<^verbatim>\<open>settings.members_files_dir\<close> is a collaborator: a function from a
  file name to what reading the file gives, the rows being those \<^verbatim>\<open>csv.reader\<close>
  yields.  \<open>Unreadable\<close> covers every exception that the function catches while it
  reads.
\<close>

datatype file_content = Missing | Unreadable | Rows "string list list"

type_synonym files = "string \<Rightarrow> file_content"

text \<open>The constant prefix of the file names, in UTF-8 bytes.\<close>

definition filename_prefix :: string where
  "filename_prefix =
      [CHR 0xD0, CHR 0x93, CHR 0xD1, CHR 0x80, CHR 0xD1, CHR 0x83, CHR 0xD0, CHR 0xBF,
      CHR 0xD0, CHR 0xBF, CHR 0xD0, CHR 0xB0, CHR 0x5F, CHR 0xD1, CHR 0x80, CHR 0xD0,
      CHR 0xB0, CHR 0xD1, CHR 0x81, CHR 0xD1, CHR 0x81, CHR 0xD1, CHR 0x8B, CHR 0xD0,
      CHR 0xBB, CHR 0xD0, CHR 0xBA, CHR 0xD0, CHR 0xB8, CHR 0x5F]"

definition email_of_row :: "string list \<Rightarrow> string option" where
  "email_of_row row =
     (if length row < 2 then None
      else
        (let email = strip_chars [CHR 0x27] (strip_chars [CHR 0x22]
                       (strip_chars whitespace (row ! 1)))
         in if email \<noteq> [] then Some email else None))"

text \<open>
  \<^verbatim>\<open>get_group_members_from_file\<close>.  The source subscripts \<^verbatim>\<open>ad_group['displayName']\<close>
  in its log lines; the key is among the requested attributes, so it is present.
\<close>

definition get_group_members_from_file :: "files \<Rightarrow> ad_group \<Rightarrow> string list" where
  "get_group_members_from_file fs ad_grp =
     (case displayName ad_grp of
        None \<Rightarrow> []
      | Some display_name \<Rightarrow>
          if display_name = [] then []
          else
            (let display_name_formatted = replace_char CHR 0x20 CHR ''_'' display_name;
                 filename = filename_prefix @ display_name_formatted @ ''.csv''
             in case fs filename of
                  Missing \<Rightarrow> []
                | Unreadable \<Rightarrow> []
                | Rows rows \<Rightarrow> List.map_filter email_of_row (tl rows)))"

subsection \<open>Indexes\<close>

text \<open>The dictionary \<^verbatim>\<open>ad_groups_by_guid\<close>.\<close>

definition ad_groups_by_guid :: "ad_group list \<Rightarrow> (string \<rightharpoonup> ad_group)" where
  "ad_groups_by_guid ad_groups =
     foldl (\<lambda>idx ad_grp.
              case objectGUID ad_grp of
                None \<Rightarrow> idx
              | Some object_guid \<Rightarrow>
                  if object_guid \<noteq> [] then idx(object_guid \<mapsto> ad_grp) else idx)
           Map.empty ad_groups"

text \<open>
  The dictionary \<^verbatim>\<open>y360_users_by_nickname\<close>: every user with a nickname is entered
  under the lower-cased nickname and under each lower-cased alias; a later entry
  overwrites an earlier one.
\<close>

definition index_user :: "(string \<rightharpoonup> y360_user) \<Rightarrow> y360_user \<Rightarrow> (string \<rightharpoonup> y360_user)" where
  "index_user idx user =
     (case u_nickname user of
        None \<Rightarrow> idx
      | Some nick \<Rightarrow>
          if nick = [] then idx
          else foldl (\<lambda>i alias. i(lower alias \<mapsto> user))
                     (idx(lower nick \<mapsto> user)) (u_aliases user))"

definition y360_users_by_nickname :: "y360_user list \<Rightarrow> (string \<rightharpoonup> y360_user)" where
  "y360_users_by_nickname y360_users = foldl index_user Map.empty y360_users"

subsection \<open>Reconciliation of one group\<close>

text \<open>\<^verbatim>\<open>s.add(x)\<close> on a set kept as a list without duplicates.\<close>

definition set_add :: "'a \<Rightarrow> 'a list \<Rightarrow> 'a list" where
  "set_add x xs = (if x \<in> set xs then xs else xs @ [x])"

text \<open>
  The loop that builds the set \<^verbatim>\<open>y360_member_nicknames\<close>.  The nickname is added
  under a guard, but \<^verbatim>\<open>nickname.lower()\<close> and \<^verbatim>\<open>.get('aliases', [])\<close> on the result of
  the index lookup are not guarded: each raises \<^verbatim>\<open>AttributeError\<close> on \<^verbatim>\<open>None\<close>.
\<close>

fun y360_member_nicknames ::
  "(string \<rightharpoonup> y360_user) \<Rightarrow> string list \<Rightarrow> y360_user list \<Rightarrow> py_error + string list" where
  "y360_member_nicknames by_nickname acc [] = Inr acc"
| "y360_member_nicknames by_nickname acc (user # rest) =
     (let acc1 = (case u_nickname user of
                    None \<Rightarrow> acc
                  | Some nick \<Rightarrow> if nick \<noteq> [] then set_add (lower nick) acc else acc)
      in case u_nickname user of
           None \<Rightarrow> Inl AttributeError
         | Some nick \<Rightarrow>
             (case by_nickname (lower nick) of
                None \<Rightarrow> Inl AttributeError
              | Some indexed \<Rightarrow>
                  y360_member_nicknames by_nickname
                    (foldl (\<lambda>a alias. set_add (lower alias) a) acc1 (u_aliases indexed))
                    rest))"

text \<open>
  The set \<^verbatim>\<open>ad_nicknames_set\<close>.  Python iterates a set in an order of its own; the
  model iterates in the order of first insertion.
\<close>

definition ad_nicknames_set :: "string list \<Rightarrow> string list" where
  "ad_nicknames_set ad_member_emails =
     foldl (\<lambda>acc ad_email.
              if CHR ''@'' \<in> set ad_email
              then set_add (lower (split_first CHR ''@'' ad_email)) acc else acc)
           [] ad_member_emails"

text \<open>The list \<^verbatim>\<open>users_to_add\<close>.\<close>

definition users_to_add ::
  "(string \<rightharpoonup> y360_user) \<Rightarrow> string list \<Rightarrow> string list \<Rightarrow> user_info list" where
  "users_to_add by_nickname member_nicknames ad_set =
     List.map_filter
       (\<lambda>ad_nickname.
          if ad_nickname \<notin> set member_nicknames then
            (case by_nickname ad_nickname of
               Some y360_user \<Rightarrow> Some \<lparr>nickname = ad_nickname, user_id = u_id y360_user\<rparr>
             | None \<Rightarrow> None)
          else None)
       ad_set"

text \<open>How often the same loop counts a handle as not found.\<close>

definition users_not_found ::
  "(string \<rightharpoonup> y360_user) \<Rightarrow> string list \<Rightarrow> string list \<Rightarrow> nat" where
  "users_not_found by_nickname member_nicknames ad_set =
     length (filter (\<lambda>ad_nickname. ad_nickname \<notin> set member_nicknames
                                   \<and> by_nickname ad_nickname = None) ad_set)"

text \<open>The list \<^verbatim>\<open>users_to_remove\<close>.\<close>

definition users_to_remove :: "y360_user list \<Rightarrow> string list \<Rightarrow> user_info list" where
  "users_to_remove y360_member_users ad_set =
     List.map_filter
       (\<lambda>y360_user.
          case u_nickname y360_user of
            None \<Rightarrow> None
          | Some nick \<Rightarrow>
              if nick \<noteq> [] then
                (if lower nick \<notin> set ad_set
                 then Some \<lparr>nickname = nick, user_id = u_id y360_user\<rparr> else None)
              else None)
       y360_member_users"

text \<open>The bodies of the loops over \<^verbatim>\<open>users_to_add\<close> and \<^verbatim>\<open>users_to_remove\<close>.\<close>

definition do_add :: "api \<Rightarrow> bool \<Rightarrow> int option \<Rightarrow> mstate \<Rightarrow> user_info \<Rightarrow> mstate" where
  "do_add api dry_run group_id st info =
     (let st1 = st\<lparr>member_decisions := member_decisions st @ [AddUser group_id info]\<rparr>
      in if \<not> dry_run then
           (let (success_add, added) =
                  add_member_to_group_by_api api (member_calls st1) group_id (user_id info);
                st2 = st1\<lparr>member_calls :=
                            member_calls st1 @ [AddMember group_id (user_id info)]\<rparr>
            in if success_add \<and> added
               then st2\<lparr>users_added_count := users_added_count st2 + 1\<rparr>
               else if success_add \<and> \<not> added then st2
               else st2\<lparr>member_errors_count := member_errors_count st2 + 1\<rparr>)
         else st1\<lparr>users_added_count := users_added_count st1 + 1\<rparr>)"

definition do_remove :: "api \<Rightarrow> bool \<Rightarrow> int option \<Rightarrow> mstate \<Rightarrow> user_info \<Rightarrow> mstate" where
  "do_remove api dry_run group_id st info =
     (let st1 = st\<lparr>member_decisions := member_decisions st @ [RemoveUser group_id info]\<rparr>
      in if \<not> dry_run then
           (let (success_remove, deleted) =
                  delete_member_from_group_by_api api (member_calls st1) group_id
                    (user_id info);
                st2 = st1\<lparr>member_calls :=
                            member_calls st1 @ [DeleteMember group_id (user_id info)]\<rparr>
            in if success_remove \<and> deleted
               then st2\<lparr>users_removed_count := users_removed_count st2 + 1\<rparr>
               else if success_remove \<and> \<not> deleted then st2
               else st2\<lparr>member_errors_count := member_errors_count st2 + 1\<rparr>)
         else st1\<lparr>users_removed_count := users_removed_count st1 + 1\<rparr>)"

subsection \<open>The loop over the target groups\<close>

text \<open>
  The part of the loop body that follows a successful read of the current members.
  \<^verbatim>\<open>save_group_members_to_csv\<close>, called first, writes a diagnostic file, catches its
  own exceptions and returns a value that is ignored.
\<close>

definition reconcile_group ::
  "api \<Rightarrow> bool \<Rightarrow> files \<Rightarrow> (string \<rightharpoonup> y360_user) \<Rightarrow> ad_group \<Rightarrow> int option \<Rightarrow>
   y360_user list \<Rightarrow> mstate \<Rightarrow> mstate" where
  "reconcile_group api dry_run fs by_nickname ad_grp group_id y360_member_users st =
     (case y360_member_nicknames by_nickname [] y360_member_users of
        Inl e \<Rightarrow> st\<lparr>raised := Some e\<rparr>
      | Inr member_nicknames \<Rightarrow>
          (let ad_member_emails = get_group_members_from_file fs ad_grp
           in if ad_member_emails = []
              then st\<lparr>skipped_groups_count := skipped_groups_count st + 1\<rparr>
              else
                (let ad_set = ad_nicknames_set ad_member_emails;
                     to_add = users_to_add by_nickname member_nicknames ad_set;
                     st1 = st\<lparr>users_not_found_count := users_not_found_count st
                                 + users_not_found by_nickname member_nicknames ad_set\<rparr>;
                     to_remove = users_to_remove y360_member_users ad_set;
                     st2 = foldl (do_add api dry_run group_id) st1 to_add
                 in foldl (do_remove api dry_run group_id) st2 to_remove)))"

text \<open>The body of the loop over \<^verbatim>\<open>y360_groups\<close>.\<close>

definition process_y360_group ::
  "api \<Rightarrow> bool \<Rightarrow> files \<Rightarrow> (string \<rightharpoonup> ad_group) \<Rightarrow> (string \<rightharpoonup> y360_user) \<Rightarrow>
   mstate \<Rightarrow> y360_group \<Rightarrow> mstate" where
  "process_y360_group api dry_run fs by_guid by_nickname st y360_group =
     (if raised st \<noteq> None then st
      else
        (let external_id = get_default (y_externalId y360_group) []
         in if \<not> startswith external_id ''DDG;'' then st
            else
              (let group_id = y_id y360_group;
                   st1 = st\<lparr>y360_groups_processed := y360_groups_processed st + 1\<rparr>
               in case index1 (split_maxsplit1 CHR '';'' external_id) of
                    Inl _ \<Rightarrow> st1\<lparr>skipped_groups_count := skipped_groups_count st1 + 1\<rparr>
                  | Inr object_guid \<Rightarrow>
                      (case by_guid object_guid of
                         None \<Rightarrow>
                           st1\<lparr>skipped_groups_count := skipped_groups_count st1 + 1\<rparr>
                       | Some ad_grp \<Rightarrow>
                           (let st2 = st1\<lparr>ad_groups_found := ad_groups_found st1 + 1\<rparr>;
                                (success_y360, y360_member_users) =
                                  get_group_members_by_api api (member_calls st2) group_id;
                                st3 = st2\<lparr>member_calls :=
                                            member_calls st2 @ [GetMembers group_id]\<rparr>
                            in if \<not> success_y360
                               then st3\<lparr>member_errors_count := member_errors_count st3 + 1\<rparr>
                               else reconcile_group api dry_run fs by_nickname ad_grp
                                      group_id y360_member_users st3)))))"

text \<open>The whole run, and the value the function returns or the exception it raises.\<close>

definition sync_group_members_run ::
  "api \<Rightarrow> bool \<Rightarrow> files \<Rightarrow> ad_group list \<Rightarrow> y360_group list \<Rightarrow> y360_user list \<Rightarrow> mstate" where
  "sync_group_members_run api dry_run fs ad_groups y360_groups y360_users =
     (if ad_groups = [] then init_mstate
      else if y360_groups = [] then init_mstate
      else if y360_users = [] then init_mstate
      else
        (let by_guid = ad_groups_by_guid ad_groups;
             by_nickname = y360_users_by_nickname y360_users
         in foldl (process_y360_group api dry_run fs by_guid by_nickname)
                  init_mstate y360_groups))"

definition sync_group_members ::
  "api \<Rightarrow> bool \<Rightarrow> files \<Rightarrow> ad_group list \<Rightarrow> y360_group list \<Rightarrow> y360_user list \<Rightarrow>
   py_error + (bool \<times> member_stats)" where
  "sync_group_members api dry_run fs ad_groups y360_groups y360_users =
     (let st = sync_group_members_run api dry_run fs ad_groups y360_groups y360_users
      in case raised st of
           Some e \<Rightarrow> Inl e
         | None \<Rightarrow> Inr (member_errors_count st = 0, member_stats.truncate st))"


section \<open>Vocabulary of the properties\<close>

text \<open>A target group carries the sync tag when its \<^verbatim>\<open>externalId\<close> starts with \<^verbatim>\<open>DDG;\<close>.\<close>

definition tagged :: "y360_group \<Rightarrow> bool" where
  "tagged g = startswith (get_default (y_externalId g) []) ''DDG;''"

text \<open>The remote call by which a live run carries out a decision.\<close>

fun call_of :: "decision \<Rightarrow> remote_call" where
  "call_of (Create gd) = CreateGroup gd"
| "call_of (Update g changes) = PatchGroup (y_id g) changes"
| "call_of (Delete grp) = DeleteGroup (d_id grp)"

fun member_call_of :: "member_decision \<Rightarrow> remote_call" where
  "member_call_of (AddUser gid info) = AddMember gid (user_id info)"
| "member_call_of (RemoveUser gid info) = DeleteMember gid (user_id info)"

text \<open>A remote call that changes the target service.\<close>

fun mutating :: "remote_call \<Rightarrow> bool" where
  "mutating (GetMembers _) = False"
| "mutating _ = True"

text \<open>
  The decision that the body of the loop over the source groups takes for one source
  group, read off \<open>process_ad_group\<close>; lemma \<open>process_ad_group_decisions\<close> relates
  the two.
\<close>

definition ad_decision :: "(string \<rightharpoonup> y360_group) \<Rightarrow> ad_group \<Rightarrow> decision option" where
  "ad_decision by_external_id ad_grp =
     (if truthy (objectGUID ad_grp) \<and> truthy (displayName ad_grp) \<and> truthy (mail ad_grp)
      then
        (let object_guid = get_default (objectGUID ad_grp) [];
             display_name = get_default (displayName ad_grp) [];
             mail_v = get_default (mail ad_grp) []
         in case by_external_id (''DDG;'' @ object_guid) of
              Some y360_group \<Rightarrow>
                (let changes = changes_needed display_name (expected_label mail_v)
                                 (expected_description (description ad_grp)) y360_group
                 in if changes \<noteq> [] then Some (Update y360_group changes) else None)
            | None \<Rightarrow>
                Some (Create (group_data display_name (''DDG;'' @ object_guid) mail_v
                                (description ad_grp))))
      else None)"

text \<open>
  Every mutating remote call succeeds and reports its change applied, whatever calls
  went before.
\<close>

definition all_succeed :: "api \<Rightarrow> bool" where
  "all_succeed a \<longleftrightarrow>
     (\<forall>h gd. create_group_by_api a h gd) \<and>
     (\<forall>h gid p. patch_group_by_api a h gid p) \<and>
     (\<forall>h gid. delete_group_by_api a h gid = (True, True)) \<and>
     (\<forall>h gid uid. add_member_to_group_by_api a h gid uid = (True, True)) \<and>
     (\<forall>h gid uid. delete_member_from_group_by_api a h gid uid = (True, True))"

text \<open>
  The snapshot is fixed: what the service reports as the members of a group does not
  depend on the calls issued before.
\<close>

definition fixed_snapshot :: "api \<Rightarrow> bool" where
  "fixed_snapshot a \<longleftrightarrow>
     (\<forall>h h' gid. get_group_members_by_api a h gid = get_group_members_by_api a h' gid)"

text \<open>
  The patch as the specification words it: the name is compared with the display name
  directly, the label with the local part of the mail when there is one, and the
  descriptions with \<^verbatim>\<open>None\<close> and an absent value read as the empty string.  The local
  part of a mail address is present when the address has an \<^verbatim>\<open>@\<close> with something
  before it.
\<close>

definition local_part :: "string option \<Rightarrow> string option" where
  "local_part mail_v =
     (case mail_v of
        None \<Rightarrow> None
      | Some m \<Rightarrow>
          if CHR ''@'' \<in> set m \<and> takeWhile (\<lambda>c. c \<noteq> CHR ''@'') m \<noteq> []
          then Some (takeWhile (\<lambda>c. c \<noteq> CHR ''@'') m) else None)"

definition spec_patch :: "ad_group \<Rightarrow> y360_group \<Rightarrow> (string \<rightharpoonup> string)" where
  "spec_patch s g attr =
     (if attr = ''name'' then
        (if get_default (y_name g) None \<noteq> displayName s then displayName s else None)
      else if attr = ''label'' then
        (case local_part (mail s) of
           None \<Rightarrow> None
         | Some l \<Rightarrow> if get_default (y_label g) None \<noteq> Some l then Some l else None)
      else if attr = ''description'' then
        (let src = (case description s of None \<Rightarrow> [] | Some d \<Rightarrow> d);
             tgt = (case y_description g of
                      None \<Rightarrow> [] | Some None \<Rightarrow> [] | Some (Some d) \<Rightarrow> d)
         in if tgt \<noteq> src then Some src else None)
      else None)"

text \<open>
  The same patch with one case kept apart: a target group whose description is present
  with the value \<^verbatim>\<open>None\<close> always has its description patched, to the description of
  the source group or to the empty string when the source group has none.
\<close>

definition field_diff :: "ad_group \<Rightarrow> y360_group \<Rightarrow> (string \<rightharpoonup> string)" where
  "field_diff s g =
     (if y_description g = Some None
      then (spec_patch s g)(''description'' \<mapsto>
              (case description s of None \<Rightarrow> [] | Some d \<Rightarrow> d))
      else spec_patch s g)"

text \<open>
  The current members agree with the index of the target users: each member that has a
  nickname is indexed, under that nickname in lower case, to a target user with the
  member's id and, up to case, the member's nickname.  This is what the index gives
  when the member list and the user list describe the same users and no handle is
  claimed by two of them.
\<close>

definition members_indexed :: "y360_user list \<Rightarrow> y360_user list \<Rightarrow> bool" where
  "members_indexed y360_users members \<longleftrightarrow>
     (\<forall>m \<in> set members. \<forall>n. u_nickname m = Some n \<longrightarrow> n \<noteq> [] \<longrightarrow>
        (\<exists>u. y360_users_by_nickname y360_users (lower n) = Some u \<and> u_id u = u_id m \<and>
             (\<exists>n'. u_nickname u = Some n' \<and> lower n' = lower n)))"

text \<open>
  The keys under which the index of the target users enters a user: the lower-cased
  nickname and the lower-cased aliases, and none for a user without a nickname.
\<close>

definition handles :: "y360_user \<Rightarrow> string set" where
  "handles v =
     (case u_nickname v of
        None \<Rightarrow> {}
      | Some nick \<Rightarrow>
          if nick = [] then {} else insert (lower nick) (lower ` set (u_aliases v)))"

subsection \<open>The target service\<close>

text \<open>
  Modelled from the spec: the target service is a collaborator outside the repository,
  known through the contracts of section 6 (\<^verbatim>\<open>createGroup(payload)\<close>,
  \<^verbatim>\<open>patchGroup(id, patch)\<close>, \<^verbatim>\<open>deleteGroup(id)\<close>) and the record \<^verbatim>\<open>TargetGroup\<close> of
  section 3.  Its state is the list of its groups, which is also what the next snapshot
  returns.  Creating stores the attributes of the payload under an id that no group
  has; patching overwrites the attributes named in the patch on the group with the
  given id; deleting removes the group with the given id; membership calls leave the
  groups as they are.
\<close>

definition fresh_id :: "y360_group list \<Rightarrow> int" where
  "fresh_id gs = 1 + foldr (\<lambda>g m. max (case y_id g of None \<Rightarrow> 0 | Some i \<Rightarrow> i) m) gs 0"

definition created_group :: "int \<Rightarrow> dict \<Rightarrow> y360_group" where
  "created_group i gd =
     \<lparr>y_id = Some i, y_externalId = map_of gd ''externalId'',
      y_name = map_option Some (map_of gd ''name''),
      y_label = map_option Some (map_of gd ''label''),
      y_description = map_option Some (map_of gd ''description'')\<rparr>"

definition apply_patch :: "dict \<Rightarrow> y360_group \<Rightarrow> y360_group" where
  "apply_patch p g =
     g\<lparr>y_name := (case map_of p ''name'' of None \<Rightarrow> y_name g | Some v \<Rightarrow> Some (Some v)),
       y_label := (case map_of p ''label'' of None \<Rightarrow> y_label g | Some v \<Rightarrow> Some (Some v)),
       y_description :=
         (case map_of p ''description'' of
            None \<Rightarrow> y_description g | Some v \<Rightarrow> Some (Some v))\<rparr>"

fun service_step :: "y360_group list \<Rightarrow> remote_call \<Rightarrow> y360_group list" where
  "service_step gs (CreateGroup gd) = gs @ [created_group (fresh_id gs) gd]"
| "service_step gs (PatchGroup gid p) =
     map (\<lambda>g. if y_id g = gid then apply_patch p g else g) gs"
| "service_step gs (DeleteGroup gid) = filter (\<lambda>g. y_id g \<noteq> gid) gs"
| "service_step gs (GetMembers gid) = gs"
| "service_step gs (AddMember gid uid) = gs"
| "service_step gs (DeleteMember gid uid) = gs"

text \<open>
  Notions for the proof of idempotence: the patches that a list of decisions holds for
  a group id, a target group after those patches, and the payloads the decisions
  create.
\<close>

definition patches_for :: "int option \<Rightarrow> decision list \<Rightarrow> dict list" where
  "patches_for gid ds =
     List.map_filter
       (\<lambda>d. case d of Update g c \<Rightarrow> if y_id g = gid then Some c else None | _ \<Rightarrow> None) ds"

definition patched :: "decision list \<Rightarrow> y360_group \<Rightarrow> y360_group" where
  "patched ds g = foldl (\<lambda>x p. apply_patch p x) g (patches_for (y_id g) ds)"

definition creates :: "decision list \<Rightarrow> dict list" where
  "creates ds = List.map_filter (\<lambda>d. case d of Create gd \<Rightarrow> Some gd | _ \<Rightarrow> None) ds"


section \<open>Concrete inputs\<close>

text \<open>A remote layer on which every call succeeds, over a fixed table of members.\<close>

definition api_ok :: "(int option \<Rightarrow> y360_user list) \<Rightarrow> api" where
  "api_ok members =
     \<lparr>create_group_by_api = (\<lambda>_ _. True),
      patch_group_by_api = (\<lambda>_ _ _. True),
      delete_group_by_api = (\<lambda>_ _. (True, True)),
      get_group_members_by_api = (\<lambda>_ gid. (True, members gid)),
      add_member_to_group_by_api = (\<lambda>_ _ _. (True, True)),
      delete_member_from_group_by_api = (\<lambda>_ _ _. (True, True))\<rparr>"

definition sales :: ad_group where
  "sales = \<lparr>objectGUID = Some ''G1'', displayName = Some ''Sales'',
            mail = Some ''sales@x'', description = None\<rparr>"

definition sales_target :: y360_group where
  "sales_target = \<lparr>y_id = Some 7, y_externalId = Some ''DDG;G1'',
                   y_name = Some (Some ''Sales''), y_label = Some (Some ''sales''),
                   y_description = None\<rparr>"

definition alice :: y360_user where
  "alice = \<lparr>u_id = Some ''1'', u_nickname = Some ''alice'', u_aliases = [''a.smith'']\<rparr>"

definition bob :: y360_user where
  "bob = \<lparr>u_id = Some ''2'', u_nickname = Some ''bob'', u_aliases = []\<rparr>"

definition carol :: y360_user where
  "carol = \<lparr>u_id = Some ''3'', u_nickname = Some ''carol'', u_aliases = []\<rparr>"

definition ghost :: y360_user where
  "ghost = \<lparr>u_id = Some ''9'', u_nickname = Some ''ghost'', u_aliases = []\<rparr>"

definition nameless :: y360_user where
  "nameless = \<lparr>u_id = Some ''8'', u_nickname = None, u_aliases = []\<rparr>"


definition stale_target :: y360_group where
  "stale_target = \<lparr>y_id = Some 7, y_externalId = Some ''DDG;G1'',
                   y_name = Some (Some ''Sale''), y_label = Some (Some ''sales''),
                   y_description = None\<rparr>"

text \<open>The group \<open>sales_target\<close> with a description that is present and \<^verbatim>\<open>None\<close>.\<close>

definition null_description_target :: y360_group where
  "null_description_target =
     \<lparr>y_id = Some 7, y_externalId = Some ''DDG;G1'', y_name = Some (Some ''Sales''),
      y_label = Some (Some ''sales''), y_description = Some None\<rparr>"

definition orphan :: y360_group where
  "orphan = \<lparr>y_id = Some 8, y_externalId = Some ''DDG;G9'', y_name = Some (Some ''Old''),
             y_label = None, y_description = None\<rparr>"

definition foreign :: y360_group where
  "foreign = \<lparr>y_id = Some 5, y_externalId = Some ''HR-1'', y_name = Some (Some ''Staff''),
              y_label = Some (Some ''staff''), y_description = None\<rparr>"

text \<open>The membership file of the group \<open>sales\<close>, with a header and two rows.\<close>

definition sales_files :: files where
  "sales_files f =
     (if f = filename_prefix @ ''Sales.csv''
      then Rows [[''name'', ''email''], [''A Smith'', ''a.smith@x''], [''Carol'', ''carol@x'']]
      else Missing)"


text \<open>Two target users of whom the second claims the nickname of the first as an alias.\<close>

definition ann :: y360_user where
  "ann = \<lparr>u_id = Some ''1'', u_nickname = Some ''a'', u_aliases = [''z'']\<rparr>"

definition ben :: y360_user where
  "ben = \<lparr>u_id = Some ''2'', u_nickname = Some ''b'', u_aliases = [''a'']\<rparr>"

definition z_files :: files where
  "z_files f =
     (if f = filename_prefix @ ''Sales.csv''
      then Rows [[''name'', ''email''], [''Z'', ''z@x'']]
      else Missing)"

text \<open>A remote layer on which the read of the members of a group fails.\<close>

definition api_read_fails :: api where
  "api_read_fails =
     \<lparr>create_group_by_api = (\<lambda>_ _. True),
      patch_group_by_api = (\<lambda>_ _ _. True),
      delete_group_by_api = (\<lambda>_ _. (True, True)),
      get_group_members_by_api = (\<lambda>_ _. (False, [])),
      add_member_to_group_by_api = (\<lambda>_ _ _. (True, True)),
      delete_member_from_group_by_api = (\<lambda>_ _ _. (True, True))\<rparr>"

definition hr :: ad_group where
  "hr = \<lparr>objectGUID = Some ''G2'', displayName = Some ''HR'', mail = Some ''hr@x'',
         description = Some ''People''\<rparr>"

section \<open>Evaluation of concrete inputs\<close>

lemmas fixtures = api_ok_def sales_def sales_target_def alice_def bob_def carol_def ghost_def
  stale_target_def null_description_target_def orphan_def foreign_def sales_files_def filename_prefix_def ann_def ben_def
  z_files_def
lemmas string_defs = get_default_def truthy_def startswith_def split_first_def
  split_maxsplit1_def index1_def lower_def lower_char_def set_add_def List.map_filter_def Let_def
lemmas group_defs = sync_ad_groups_run_def init_gstate_def y360_groups_by_external_id_def
  process_ad_group_def group_data_def do_create_def do_update_def do_delete_def
  groups_to_delete_def delete_candidate_def ad_object_guids_def changes_needed_def
  expected_label_def expected_description_def
lemmas member_defs = sync_group_members_def sync_group_members_run_def init_mstate_def
  ad_groups_by_guid_def y360_users_by_nickname_def index_user_def process_y360_group_def
  reconcile_group_def get_group_members_from_file_def email_of_row_def
  strip_chars_def whitespace_def replace_char_def ad_nicknames_set_def users_to_add_def
  users_to_remove_def users_not_found_def do_add_def do_remove_def


section \<open>The decisions and calls of the group synchronisation\<close>

lemma process_ad_group_decisions:
  "decisions (process_ad_group a dry idx st g) =
     decisions st @ (case ad_decision idx g of None \<Rightarrow> [] | Some d \<Rightarrow> [d])"
  by (simp add: process_ad_group_def ad_decision_def do_create_def do_update_def truthy_def
      get_default_def Let_def split: option.splits)

lemma foldl_process_decisions:
  "decisions (foldl (process_ad_group a dry idx) st gs) =
     decisions st @ List.map_filter (ad_decision idx) gs"
  by (induction gs arbitrary: st)
     (simp_all add: process_ad_group_decisions List.map_filter_def split: option.splits)

lemma do_delete_decisions: "decisions (do_delete a dry st d) = decisions st @ [Delete d]"
  by (simp add: do_delete_def Let_def split: prod.splits)

lemma foldl_delete_decisions:
  "decisions (foldl (do_delete a dry) st ds) = decisions st @ map Delete ds"
  by (induction ds arbitrary: st) (simp_all add: do_delete_decisions)

lemma run_decisions:
  "ad \<noteq> [] \<Longrightarrow> decisions (sync_ad_groups_run a dry ad ys) =
     List.map_filter (ad_decision (y360_groups_by_external_id ys)) ad
     @ map Delete (groups_to_delete (ad_object_guids ad) ys)"
  by (simp add: sync_ad_groups_run_def Let_def foldl_delete_decisions foldl_process_decisions
      init_gstate_def)

lemma process_ad_group_calls:
  "calls (process_ad_group a dry idx st g) =
     calls st @ (if dry then [] else map call_of (case ad_decision idx g of None \<Rightarrow> [] | Some d \<Rightarrow> [d]))"
  by (simp add: process_ad_group_def ad_decision_def do_create_def do_update_def truthy_def
      get_default_def Let_def split: option.splits)

lemma foldl_process_calls:
  "calls (foldl (process_ad_group a dry idx) st gs) =
     calls st @ (if dry then [] else map call_of (List.map_filter (ad_decision idx) gs))"
  by (induction gs arbitrary: st)
     (simp_all add: process_ad_group_calls List.map_filter_def split: option.splits)

lemma do_delete_calls:
  "calls (do_delete a dry st d) = calls st @ (if dry then [] else [DeleteGroup (d_id d)])"
  by (simp add: do_delete_def Let_def split: prod.splits)

lemma foldl_delete_calls:
  "calls (foldl (do_delete a dry) st ds) =
     calls st @ (if dry then [] else map (\<lambda>d. DeleteGroup (d_id d)) ds)"
  by (induction ds arbitrary: st) (simp_all add: do_delete_calls)

lemma run_calls:
  "calls (sync_ad_groups_run a dry ad ys) =
     (if dry then [] else map call_of (decisions (sync_ad_groups_run a dry ad ys)))"
proof (cases "ad = []")
  case True
  then show ?thesis by (simp add: sync_ad_groups_run_def init_gstate_def)
next
  case False
  then show ?thesis
    by (simp add: run_decisions)
       (simp add: sync_ad_groups_run_def Let_def foldl_delete_calls foldl_process_calls
          init_gstate_def comp_def)
qed


lemma foldl_index_lookup:
  "foldl (\<lambda>idx group.
              let external_id = get_default (y_externalId group) []
              in if external_id \<noteq> [] then idx(external_id \<mapsto> group) else idx) m ys k = Some g
   \<Longrightarrow> m k = Some g \<or> (g \<in> set ys \<and> y_externalId g = Some k \<and> k \<noteq> [])"
proof (induction ys arbitrary: m)
  case Nil
  then show ?case by simp
next
  case (Cons y ys)
  from Cons.IH [OF Cons.prems [simplified]] show ?case
    by (auto simp: get_default_def Let_def split: if_splits option.splits)
qed

lemma index_lookup:
  "y360_groups_by_external_id ys k = Some g
   \<Longrightarrow> g \<in> set ys \<and> y_externalId g = Some k \<and> k \<noteq> []"
  unfolding y360_groups_by_external_id_def by (drule foldl_index_lookup) simp

lemma foldl_guids_set:
  "set (foldl (\<lambda>acc ad_grp.
              case objectGUID ad_grp of
                None \<Rightarrow> acc
              | Some object_guid \<Rightarrow>
                  if object_guid \<noteq> [] then List.insert object_guid acc else acc) acc ad)
   = set acc \<union> {g. g \<noteq> [] \<and> (\<exists>a \<in> set ad. objectGUID a = Some g)}"
  by (induction ad arbitrary: acc) (auto split: option.splits)

lemma set_ad_object_guids:
  "set (ad_object_guids ad) = {g. g \<noteq> [] \<and> (\<exists>a \<in> set ad. objectGUID a = Some g)}"
  by (simp add: ad_object_guids_def foldl_guids_set)

lemma startswith_DDG: "startswith s ''DDG;'' \<longleftrightarrow> (\<exists>t. s = ''DDG;'' @ t)"
proof
  assume "startswith s ''DDG;''"
  then have *: "take (length ''DDG;'') s = ''DDG;''" unfolding startswith_def .
  have "s = take (length ''DDG;'') s @ drop (length ''DDG;'') s"
    by (simp only: append_take_drop_id)
  with * have "s = ''DDG;'' @ drop (length ''DDG;'') s" by (simp only:)
  then show "\<exists>t. s = ''DDG;'' @ t" ..
next
  assume "\<exists>t. s = ''DDG;'' @ t"
  then show "startswith s ''DDG;''" by (auto simp: startswith_def)
qed

lemma split_DDG: "index1 (split_maxsplit1 CHR '';'' (''DDG;'' @ t)) = Inr t"
  by (simp add: index1_def split_maxsplit1_def)

lemma delete_candidate_Some:
  "delete_candidate guids g = Some d \<longleftrightarrow>
     (\<exists>t. y_externalId g = Some (''DDG;'' @ t) \<and> t \<notin> set guids \<and>
          d = \<lparr>d_id = y_id g, d_name = get_default (y_name g) None,
               d_externalId = ''DDG;'' @ t, d_objectGUID = t\<rparr>)"
  by (cases "y_externalId g")
     (auto simp: delete_candidate_def Let_def get_default_def startswith_DDG split_DDG
           simp del: append.simps split: if_splits)

lemma set_map_filter: "set (List.map_filter f xs) = {y. \<exists>x \<in> set xs. f x = Some y}"
  by (induction xs) (auto split: option.splits)

lemma set_groups_to_delete:
  "set (groups_to_delete guids ys) = {d. \<exists>g \<in> set ys. delete_candidate guids g = Some d}"
  by (simp add: groups_to_delete_def set_map_filter)

lemma ad_decision_Update:
  "ad_decision (y360_groups_by_external_id ys) a = Some (Update g c) \<Longrightarrow>
     g \<in> set ys \<and> c \<noteq> [] \<and> (\<exists>guid. guid \<noteq> [] \<and> objectGUID a = Some guid \<and> y_externalId g = Some (''DDG;'' @ guid))"
  by (auto simp: ad_decision_def Let_def truthy_def get_default_def
           split: if_splits option.splits dest!: index_lookup)


lemma taggedI: "y_externalId g = Some (''DDG;'' @ t) \<Longrightarrow> tagged g"
  unfolding tagged_def startswith_DDG get_default_def by (simp del: append.simps)

lemma taggedE: "tagged g \<Longrightarrow> \<exists>t. y_externalId g = Some (''DDG;'' @ t)"
  unfolding tagged_def startswith_DDG get_default_def
  by (cases "y_externalId g") (simp_all del: append.simps)

lemma run_decisions_cases:
  assumes "dec \<in> set (decisions (sync_ad_groups_run a dry ad ys))"
  shows "(\<exists>s \<in> set ad. ad_decision (y360_groups_by_external_id ys) s = Some dec) \<or>
         (\<exists>grp \<in> set (groups_to_delete (ad_object_guids ad) ys). dec = Delete grp)"
proof (cases "ad = []")
  case True
  with assms show ?thesis by (simp add: sync_ad_groups_run_def init_gstate_def)
next
  case False
  with assms show ?thesis by (auto simp: run_decisions set_map_filter)
qed

lemma ad_decision_not_Delete: "ad_decision idx s \<noteq> Some (Delete grp)"
  by (simp add: ad_decision_def Let_def split: option.splits)

lemma run_Delete:
  assumes "Delete grp \<in> set (decisions (sync_ad_groups_run a dry ad ys))"
  shows "\<exists>g \<in> set ys. d_id grp = y_id g \<and> d_name grp = get_default (y_name g) None
           \<and> y_externalId g = Some (''DDG;'' @ d_objectGUID grp)
           \<and> d_externalId grp = ''DDG;'' @ d_objectGUID grp
           \<and> \<not> (\<exists>s \<in> set ad. truthy (objectGUID s) \<and> objectGUID s = Some (d_objectGUID grp))"
proof -
  from run_decisions_cases [OF assms]
  have "grp \<in> set (groups_to_delete (ad_object_guids ad) ys)"
    by (auto simp: ad_decision_not_Delete)
  then obtain g where g: "g \<in> set ys" "delete_candidate (ad_object_guids ad) g = Some grp"
    by (auto simp: set_groups_to_delete)
  from g(2) obtain t where t: "y_externalId g = Some (''DDG;'' @ t)" "t \<notin> set (ad_object_guids ad)"
    "grp = \<lparr>d_id = y_id g, d_name = get_default (y_name g) None,
             d_externalId = ''DDG;'' @ t, d_objectGUID = t\<rparr>"
    unfolding delete_candidate_Some by blast
  from t(2) have "\<not> (\<exists>s \<in> set ad. truthy (objectGUID s) \<and> objectGUID s = Some t)"
    by (auto simp: set_ad_object_guids truthy_def)
  with g(1) t show ?thesis by auto
qed

lemma run_Update:
  assumes "Update g c \<in> set (decisions (sync_ad_groups_run a dry ad ys))"
  shows "g \<in> set ys \<and> tagged g \<and> c \<noteq> [] \<and>
         (\<exists>s \<in> set ad. \<exists>guid. objectGUID s = Some guid \<and> guid \<noteq> [] \<and> y_externalId g = Some (''DDG;'' @ guid))"
proof -
  from run_decisions_cases [OF assms]
  obtain s where s: "s \<in> set ad" "ad_decision (y360_groups_by_external_id ys) s = Some (Update g c)"
    by auto
  from ad_decision_Update [OF s(2)] s(1) show ?thesis
    by (blast intro: taggedI)
qed

text \<open>
  Claim C1.  Whatever the inputs, the mode and the answers of the remote layer: every
  group the run decides to delete is a target group whose \<^verbatim>\<open>externalId\<close> is
  \<^verbatim>\<open>DDG;\<close> followed by a suffix that is the (non-empty) \<^verbatim>\<open>objectGUID\<close> of no source
  group; every group it decides to patch is a target group with the tag; the remote
  calls are exactly those of the decisions (none in dry-run mode); and with distinct
  target ids no call deletes or patches the id of an untagged target group.  A source
  group whose \<^verbatim>\<open>objectGUID\<close> is empty has none for the program (\<^verbatim>\<open>if object_guid:\<close>).
\<close>

theorem sync_ad_groups_tag_safety:
  "(\<forall>grp. Delete grp \<in> set (decisions (sync_ad_groups_run a dry ad ys)) \<longrightarrow>
      (\<exists>g \<in> set ys. tagged g \<and> d_id grp = y_id g
          \<and> y_externalId g = Some (''DDG;'' @ d_objectGUID grp)
          \<and> \<not> (\<exists>s \<in> set ad. truthy (objectGUID s)
                               \<and> objectGUID s = Some (d_objectGUID grp)))) \<and>
   (\<forall>g c. Update g c \<in> set (decisions (sync_ad_groups_run a dry ad ys)) \<longrightarrow>
      g \<in> set ys \<and> tagged g) \<and>
   calls (sync_ad_groups_run a dry ad ys) =
     (if dry then [] else map call_of (decisions (sync_ad_groups_run a dry ad ys))) \<and>
   (distinct (map y_id ys) \<longrightarrow>
      (\<forall>g \<in> set ys. \<not> tagged g \<longrightarrow>
         DeleteGroup (y_id g) \<notin> set (calls (sync_ad_groups_run a dry ad ys)) \<and>
         (\<forall>c. PatchGroup (y_id g) c \<notin> set (calls (sync_ad_groups_run a dry ad ys)))))"
proof (intro conjI allI impI ballI)
  fix grp
  assume "Delete grp \<in> set (decisions (sync_ad_groups_run a dry ad ys))"
  from run_Delete [OF this]
  show "\<exists>g \<in> set ys. tagged g \<and> d_id grp = y_id g
          \<and> y_externalId g = Some (''DDG;'' @ d_objectGUID grp)
          \<and> \<not> (\<exists>s \<in> set ad. truthy (objectGUID s) \<and> objectGUID s = Some (d_objectGUID grp))"
    by (blast intro: taggedI)
next
  fix g c
  assume "Update g c \<in> set (decisions (sync_ad_groups_run a dry ad ys))"
  from run_Update [OF this] show "g \<in> set ys" "tagged g" by auto
next
  show "calls (sync_ad_groups_run a dry ad ys) =
     (if dry then [] else map call_of (decisions (sync_ad_groups_run a dry ad ys)))"
    by (rule run_calls)
next
  fix g
  assume d: "distinct (map y_id ys)" and g: "g \<in> set ys" "\<not> tagged g"
  have inj: "\<And>g'. g' \<in> set ys \<Longrightarrow> y_id g' = y_id g \<Longrightarrow> g' = g"
    using d g(1) by (meson distinct_map inj_onD)
  show "DeleteGroup (y_id g) \<notin> set (calls (sync_ad_groups_run a dry ad ys))"
  proof
    assume "DeleteGroup (y_id g) \<in> set (calls (sync_ad_groups_run a dry ad ys))"
    then obtain dec where dec: "dec \<in> set (decisions (sync_ad_groups_run a dry ad ys))"
      "call_of dec = DeleteGroup (y_id g)"
      by (auto simp: run_calls split: if_splits)
    from dec(2) obtain grp where grp: "dec = Delete grp" "d_id grp = y_id g"
      by (cases dec) auto
    from run_Delete [OF dec(1) [unfolded grp(1)]] grp(2) inj g(2) show False
      by (metis taggedI)
  qed
  show "\<And>c. PatchGroup (y_id g) c \<notin> set (calls (sync_ad_groups_run a dry ad ys))"
  proof
    fix c
    assume "PatchGroup (y_id g) c \<in> set (calls (sync_ad_groups_run a dry ad ys))"
    then obtain dec where dec: "dec \<in> set (decisions (sync_ad_groups_run a dry ad ys))"
      "call_of dec = PatchGroup (y_id g) c"
      by (auto simp: run_calls split: if_splits)
    from dec(2) obtain g' where g': "dec = Update g' c" "y_id g' = y_id g"
      by (cases dec) auto
    from run_Update [OF dec(1) [unfolded g'(1)]] g'(2) inj g(2) show False by auto
  qed
qed


text \<open>
  The theorem at a target with a stale tagged group, a tagged orphan and an untagged
  group: the first is patched, the second deleted, the third left alone.
\<close>

theorem sync_ad_groups_tag_safety_witness:
  "Delete \<lparr>d_id = Some 8, d_name = Some ''Old'', d_externalId = ''DDG;G9'', d_objectGUID = ''G9''\<rparr>
     \<in> set (decisions (sync_ad_groups_run (api_ok (\<lambda>_. [])) False [sales]
                          [stale_target, orphan, foreign])) \<and>
   Update stale_target [(''name'', ''Sales'')]
     \<in> set (decisions (sync_ad_groups_run (api_ok (\<lambda>_. [])) False [sales]
                          [stale_target, orphan, foreign])) \<and>
   tagged stale_target \<and>
   distinct (map y_id [stale_target, orphan, foreign]) \<and> \<not> tagged foreign \<and>
   DeleteGroup (y_id foreign)
     \<notin> set (calls (sync_ad_groups_run (api_ok (\<lambda>_. [])) False [sales]
                      [stale_target, orphan, foreign])) \<and>
   calls (sync_ad_groups_run (api_ok (\<lambda>_. [])) False [sales] [stale_target, orphan, foreign])
     = [PatchGroup (Some 7) [(''name'', ''Sales'')], DeleteGroup (Some 8)]"
proof -
  let ?R = "sync_ad_groups_run (api_ok (\<lambda>_. [])) False [sales] [stale_target, orphan, foreign]"
  have d: "decisions ?R =
       [Update stale_target [(''name'', ''Sales'')],
        Delete \<lparr>d_id = Some 8, d_name = Some ''Old'', d_externalId = ''DDG;G9'',
                d_objectGUID = ''G9''\<rparr>]"
    by (simp add: fixtures group_defs string_defs)
  have h: "distinct (map y_id [stale_target, orphan, foreign])" "\<not> tagged foreign"
    by (simp_all add: fixtures tagged_def string_defs)
  note T = sync_ad_groups_tag_safety [of "api_ok (\<lambda>_. [])" False "[sales]"
      "[stale_target, orphan, foreign]"]
  have c: "calls ?R = map call_of (decisions ?R)"
    using T [THEN conjunct2, THEN conjunct2, THEN conjunct1] by simp
  have m: "foreign \<in> set [stale_target, orphan, foreign]" by simp
  have f: "DeleteGroup (y_id foreign) \<notin> set (calls ?R)"
    using T [THEN conjunct2, THEN conjunct2, THEN conjunct2, rule_format, OF h(1) m h(2)]
    by simp
  have "Update stale_target [(''name'', ''Sales'')] \<in> set (decisions ?R)"
    by (simp add: d)
  then have t: "tagged stale_target"
    using T [THEN conjunct2, THEN conjunct1, rule_format] by blast
  have i: "y_id stale_target = Some 7" by (simp add: stale_target_def)
  show ?thesis using d c f t h i by simp
qed


section \<open>The field diff\<close>

lemma map_of_changes_needed:
  assumes "dn \<noteq> []" "displayName s = Some dn" "mail s = Some m" "m \<noteq> []"
  shows "map_of (changes_needed dn (expected_label m) (expected_description (description s)) g)
     = field_diff s g"
proof
  fix k
  have l: "local_part (mail s) = (case expected_label m of None \<Rightarrow> None
                                  | Some l \<Rightarrow> if l \<noteq> [] then Some l else None)"
    using assms by (simp add: local_part_def expected_label_def split_first_def)
  have d: "expected_description (description s)
             = (case description s of None \<Rightarrow> [] | Some d \<Rightarrow> d)"
    by (simp add: expected_description_def truthy_def get_default_def split: option.splits)
  have n: "(get_default (y_name g) (Some []) \<noteq> Some dn)
             = (get_default (y_name g) None \<noteq> displayName s)"
    using assms by (cases "y_name g") (auto simp: get_default_def)
  have b: "\<And>l. l \<noteq> [] \<Longrightarrow> (get_default (y_label g) (Some []) \<noteq> Some l)
             = (get_default (y_label g) None \<noteq> Some l)"
    by (cases "y_label g") (auto simp: get_default_def)
  show "map_of (changes_needed dn (expected_label m) (expected_description (description s)) g) k
     = field_diff s g k"
    unfolding changes_needed_def field_diff_def spec_patch_def l d n Let_def
    using assms(2) b
    by (cases "expected_label m"; cases "y_description g")
       (auto simp: AList.update_conv' get_default_def split: option.splits)
qed

lemma distinct_changes_needed:
  "distinct (map fst (changes_needed dn el ed g))"
  by (auto simp: changes_needed_def Let_def AList.distinct_update split: option.splits)

text \<open>
  Claim C9, as amended.  For a source group that passes the required-attribute checks
  and is matched to a target group, the dictionary \<^verbatim>\<open>changes_needed\<close> holds each key
  at most once and, read as a map, is \<open>field_diff\<close>: \<^verbatim>\<open>name\<close> when the target name is
  not the display name; \<^verbatim>\<open>label\<close> when the mail has a local part and the target label
  is not that local part, and never without a local part; \<^verbatim>\<open>description\<close> when the
  two descriptions differ, with a source description that is \<^verbatim>\<open>None\<close> or absent and a
  target description that is absent read as the empty string, and always when the
  target description is present with the value \<^verbatim>\<open>None\<close>; no other key.  With an
  empty patch the loop body changes nothing: no decision, no remote call, no counter.
  With a non-empty patch it is the update block, which records one update and, in a
  live run, issues one patch call.
\<close>

theorem field_diff_exact:
  assumes "objectGUID s = Some guid" "guid \<noteq> []" "displayName s = Some dn" "dn \<noteq> []"
    and "mail s = Some m" "m \<noteq> []" "by_external_id (''DDG;'' @ guid) = Some g"
  shows "\<exists>changes. map_of changes = field_diff s g \<and> distinct (map fst changes) \<and>
           (changes = [] \<longrightarrow> process_ad_group a dry by_external_id st s = st) \<and>
           (changes \<noteq> [] \<longrightarrow>
              process_ad_group a dry by_external_id st s = do_update a dry g changes st \<and>
              decisions (process_ad_group a dry by_external_id st s)
                = decisions st @ [Update g changes] \<and>
              calls (process_ad_group a dry by_external_id st s)
                = calls st @ (if dry then [] else [PatchGroup (y_id g) changes]))"
proof -
  let ?c = "changes_needed dn (expected_label m) (expected_description (description s)) g"
  have p: "process_ad_group a dry by_external_id st s
             = (if ?c \<noteq> [] then do_update a dry g ?c st else st)"
    using assms by (simp add: process_ad_group_def Let_def)
  have "map_of ?c = field_diff s g" using assms by (simp add: map_of_changes_needed)
  moreover have "distinct (map fst ?c)" by (rule distinct_changes_needed)
  moreover have "?c = [] \<longrightarrow> process_ad_group a dry by_external_id st s = st"
    by (simp add: p)
  moreover have "?c \<noteq> [] \<longrightarrow>
              process_ad_group a dry by_external_id st s = do_update a dry g ?c st \<and>
              decisions (process_ad_group a dry by_external_id st s)
                = decisions st @ [Update g ?c] \<and>
              calls (process_ad_group a dry by_external_id st s)
                = calls st @ (if dry then [] else [PatchGroup (y_id g) ?c])"
    by (simp add: p do_update_def Let_def)
  ultimately show ?thesis by blast
qed


text \<open>The theorem at the source group \<open>sales\<close> and a target group with a stale name.\<close>

theorem field_diff_exact_witness:
  "objectGUID sales = Some ''G1'' \<and> displayName sales = Some ''Sales'' \<and>
   mail sales = Some ''sales@x'' \<and>
   y360_groups_by_external_id [stale_target] (''DDG;'' @ ''G1'') = Some stale_target \<and>
   (\<exists>changes. map_of changes = field_diff sales stale_target \<and> distinct (map fst changes) \<and>
      (changes = [] \<longrightarrow>
         process_ad_group (api_ok (\<lambda>_. [])) False (y360_groups_by_external_id [stale_target])
           init_gstate sales = init_gstate) \<and>
      (changes \<noteq> [] \<longrightarrow>
         process_ad_group (api_ok (\<lambda>_. [])) False (y360_groups_by_external_id [stale_target])
           init_gstate sales = do_update (api_ok (\<lambda>_. [])) False stale_target changes init_gstate \<and>
         decisions (process_ad_group (api_ok (\<lambda>_. [])) False
                      (y360_groups_by_external_id [stale_target]) init_gstate sales)
           = decisions init_gstate @ [Update stale_target changes] \<and>
         calls (process_ad_group (api_ok (\<lambda>_. [])) False
                  (y360_groups_by_external_id [stale_target]) init_gstate sales)
           = calls init_gstate @ (if False then [] else [PatchGroup (y_id stale_target) changes])))"
proof -
  have h: "objectGUID sales = Some ''G1''" "''G1'' \<noteq> []" "displayName sales = Some ''Sales''"
    "''Sales'' \<noteq> []" "mail sales = Some ''sales@x''" "''sales@x'' \<noteq> []"
    "y360_groups_by_external_id [stale_target] (''DDG;'' @ ''G1'') = Some stale_target"
    by (simp_all add: sales_def stale_target_def y360_groups_by_external_id_def get_default_def Let_def)
  from field_diff_exact [where s = sales and guid = "''G1''" and dn = "''Sales''"
      and m = "''sales@x''" and by_external_id = "y360_groups_by_external_id [stale_target]"
      and g = stale_target and a = "api_ok (\<lambda>_. [])" and dry = False and st = init_gstate,
      OF h] h
  show ?thesis by simp
qed

text \<open>
  Claim C9 as stated fails.  The source group \<open>sales\<close> has no description and the
  target group holds the key \<^verbatim>\<open>description\<close> with the value \<^verbatim>\<open>None\<close>: read as the
  empty string the two do not differ and the patch of the specification has no
  description, but \<^verbatim>\<open>None != ""\<close> holds and the program patches the description to the
  empty string.
\<close>

theorem null_description_counterexample:
  "spec_patch sales null_description_target ''description'' = None \<and>
   changes_needed ''Sales'' (expected_label ''sales@x'')
       (expected_description (description sales)) null_description_target
     = [(''description'', [])] \<and>
   decisions (sync_ad_groups_run (api_ok (\<lambda>_. [])) False [sales] [null_description_target])
     = [Update null_description_target [(''description'', [])]] \<and>
   calls (sync_ad_groups_run (api_ok (\<lambda>_. [])) False [sales] [null_description_target])
     = [PatchGroup (Some 7) [(''description'', [])]] \<and>
   updated_count (sync_ad_groups_run (api_ok (\<lambda>_. [])) False [sales]
                    [null_description_target]) = 1"
  by (simp add: fixtures group_defs string_defs spec_patch_def)


section \<open>Empty inputs\<close>

lemma ad_decision_empty:
  "ad_decision Map.empty s =
     (if truthy (objectGUID s) \<and> truthy (displayName s) \<and> truthy (mail s)
      then Some (Create (group_data (get_default (displayName s) [])
                           (''DDG;'' @ get_default (objectGUID s) [])
                           (get_default (mail s) []) (description s)))
      else None)"
  by (simp add: ad_decision_def Let_def)

lemma map_filter_if: "List.map_filter (\<lambda>x. if P x then Some (f x) else None) xs = map f (filter P xs)"
  by (induction xs) simp_all

text \<open>
  Claim C8, as amended.  \<^verbatim>\<open>sync_group_members\<close> stops at once, with zero statistics,
  no decision and no remote call, when the source groups, the target groups or the
  target users are empty.  \<^verbatim>\<open>sync_ad_groups_to_y360\<close> stops at once when the source
  groups are empty.  Against an empty target it goes on: it decides no update and no
  deletion, and one creation for each source group that has an \<^verbatim>\<open>objectGUID\<close>, a
  \<^verbatim>\<open>displayName\<close> and a \<^verbatim>\<open>mail\<close>.
\<close>

theorem empty_input_abort:
  "(ad = [] \<or> ys = [] \<or> us = [] \<longrightarrow>
      sync_group_members_run a dry fs ad ys us = init_mstate \<and>
      sync_group_members a dry fs ad ys us = Inr (True, member_stats.truncate init_mstate)) \<and>
   sync_ad_groups_run a dry [] ys = init_gstate \<and>
   sync_ad_groups_to_y360 a dry [] ys = (True, group_stats.truncate init_gstate) \<and>
   decisions (sync_ad_groups_run a dry ad []) =
     map (\<lambda>s. Create (group_data (get_default (displayName s) [])
                         (''DDG;'' @ get_default (objectGUID s) [])
                         (get_default (mail s) []) (description s)))
         (filter (\<lambda>s. truthy (objectGUID s) \<and> truthy (displayName s) \<and> truthy (mail s)) ad)"
proof (intro conjI impI)
  assume e: "ad = [] \<or> ys = [] \<or> us = []"
  then show r: "sync_group_members_run a dry fs ad ys us = init_mstate"
    by (auto simp: sync_group_members_run_def)
  show "sync_group_members a dry fs ad ys us = Inr (True, member_stats.truncate init_mstate)"
    by (simp add: sync_group_members_def r Let_def) (simp add: init_mstate_def)
next
  show r: "sync_ad_groups_run a dry [] ys = init_gstate"
    by (simp add: sync_ad_groups_run_def)
  show "sync_ad_groups_to_y360 a dry [] ys = (True, group_stats.truncate init_gstate)"
    by (simp add: sync_ad_groups_to_y360_def r Let_def) (simp add: init_gstate_def)
next
  show "decisions (sync_ad_groups_run a dry ad []) =
     map (\<lambda>s. Create (group_data (get_default (displayName s) [])
                         (''DDG;'' @ get_default (objectGUID s) [])
                         (get_default (mail s) []) (description s)))
         (filter (\<lambda>s. truthy (objectGUID s) \<and> truthy (displayName s) \<and> truthy (mail s)) ad)"
  proof (cases "ad = []")
    case True
    then show ?thesis by (simp add: sync_ad_groups_run_def init_gstate_def)
  next
    case False
    have "y360_groups_by_external_id [] = Map.empty"
      by (simp add: y360_groups_by_external_id_def)
    with False show ?thesis
      by (simp add: run_decisions groups_to_delete_def ad_decision_empty [abs_def] map_filter_if)
  qed
qed

text \<open>The theorem at one source group, no target group and one target user.\<close>

theorem empty_input_abort_witness:
  "([sales] = [] \<or> ([]::y360_group list) = [] \<or> [alice] = []) \<and>
   sync_group_members (api_ok (\<lambda>_. [])) False sales_files [sales] [] [alice]
     = Inr (True, member_stats.truncate init_mstate)"
  using empty_input_abort [of "[sales]" "[]" "[alice]" "api_ok (\<lambda>_. [])" False sales_files]
  by simp

text \<open>
  Claim C8 as stated fails: with the source group \<open>sales\<close> and no target group, the
  group synchronisation decides a creation and, in a live run, issues the call.
\<close>

theorem empty_target_creates_counterexample:
  "decisions (sync_ad_groups_run (api_ok (\<lambda>_. [])) False [sales] [])
     = [Create [(''name'', ''Sales''), (''externalId'', ''DDG;G1''), (''label'', ''sales'')]] \<and>
   calls (sync_ad_groups_run (api_ok (\<lambda>_. [])) False [sales] [])
     = [CreateGroup [(''name'', ''Sales''), (''externalId'', ''DDG;G1''), (''label'', ''sales'')]] \<and>
   created_count (sync_ad_groups_run (api_ok (\<lambda>_. [])) False [sales] []) = 1"
  by (simp add: fixtures group_defs string_defs)


section \<open>Two runs of the membership synchronisation\<close>

text \<open>
  Claim C5.  The scenario of the specification: the group has the members \<open>alice\<close> and
  \<open>bob\<close>, \<open>alice\<close> has the alias \<^verbatim>\<open>a.smith\<close>, and the membership file lists
  \<^verbatim>\<open>a.smith\<close> and \<^verbatim>\<open>carol\<close>.  The program decides to add \<open>carol\<close> and to remove both
  \<open>alice\<close> and \<open>bob\<close>: the removal compares the nickname only.
\<close>

theorem alias_scenario_removes_alice:
  "member_decisions (sync_group_members_run (api_ok (\<lambda>_. [alice, bob])) True sales_files
                       [sales] [sales_target] [alice, bob, carol])
     = [AddUser (Some 7) \<lparr>nickname = ''carol'', user_id = Some ''3''\<rparr>,
        RemoveUser (Some 7) \<lparr>nickname = ''alice'', user_id = Some ''1''\<rparr>,
        RemoveUser (Some 7) \<lparr>nickname = ''bob'', user_id = Some ''2''\<rparr>]"
  by (simp add: fixtures member_defs string_defs)

text \<open>
  Claim C7.  A current member whose nickname is not in the index of the target users
  (here \<open>ghost\<close>, the index holding \<open>alice\<close> only) makes the run raise
  \<^verbatim>\<open>AttributeError\<close>, and so does a member without a nickname (\<open>nameless\<close>); no pair
  \<^verbatim>\<open>(success, stats)\<close> is returned.
\<close>

theorem unindexed_member_raises:
  "sync_group_members (api_ok (\<lambda>_. [ghost])) False sales_files [sales] [sales_target] [alice]
     = Inl AttributeError \<and>
   sync_group_members (api_ok (\<lambda>_. [nameless])) False sales_files [sales] [sales_target]
       [alice]
     = Inl AttributeError"
  by (simp add: fixtures nameless_def member_defs string_defs)

section \<open>The reconciliation of one group\<close>

lemma foldl_alias_lookup:
  "foldl (\<lambda>i alias. i(lower alias \<mapsto> user)) m als k =
     (if k \<in> lower ` set als then Some user else m k)"
  by (induction als arbitrary: m) auto

lemma index_user_lookup:
  "index_user idx u k = Some v \<Longrightarrow>
     idx k = Some v \<or>
     (v = u \<and> (\<exists>nick. u_nickname u = Some nick \<and> nick \<noteq> [] \<and>
                       (k = lower nick \<or> k \<in> lower ` set (u_aliases u))))"
  by (auto simp: index_user_def foldl_alias_lookup split: option.splits if_splits)

lemma foldl_index_user_lookup:
  "foldl index_user idx us k = Some v \<Longrightarrow>
     idx k = Some v \<or>
     (v \<in> set us \<and> (\<exists>nick. u_nickname v = Some nick \<and> nick \<noteq> [] \<and>
                       (k = lower nick \<or> k \<in> lower ` set (u_aliases v))))"
proof (induction us arbitrary: idx)
  case Nil
  then show ?case by simp
next
  case (Cons u us)
  from Cons.prems have "foldl index_user (index_user idx u) us k = Some v" by simp
  from Cons.IH [OF this] show ?case
    by (auto dest: index_user_lookup)
qed

lemma users_index_lookup:
  "y360_users_by_nickname us k = Some v \<Longrightarrow>
     v \<in> set us \<and> (\<exists>nick. u_nickname v = Some nick \<and> nick \<noteq> [] \<and>
                       (k = lower nick \<or> k \<in> lower ` set (u_aliases v)))"
  unfolding y360_users_by_nickname_def by (drule foldl_index_user_lookup) simp

lemma set_set_add: "set (set_add x xs) = insert x (set xs)"
  by (auto simp: set_add_def)

lemma set_foldl_set_add:
  "set (foldl (\<lambda>a alias. set_add (f alias) a) acc als) = set acc \<union> f ` set als"
  by (induction als arbitrary: acc) (auto simp: set_set_add)

lemma member_nicknames_acc:
  "y360_member_nicknames idx acc ms = Inr mn \<Longrightarrow> set acc \<subseteq> set mn"
proof (induction ms arbitrary: acc)
  case Nil
  then show ?case by simp
next
  case (Cons m ms)
  then show ?case
    by (fastforce simp: Let_def set_foldl_set_add set_set_add split: option.splits if_splits)
qed

lemma member_nicknames_aliases:
  "y360_member_nicknames idx acc ms = Inr mn \<Longrightarrow> m \<in> set ms \<Longrightarrow>
   u_nickname m = Some n \<Longrightarrow> idx (lower n) = Some u \<Longrightarrow>
   lower ` set (u_aliases u) \<subseteq> set mn \<and> (n \<noteq> [] \<longrightarrow> lower n \<in> set mn)"
proof (induction ms arbitrary: acc)
  case Nil
  then show ?case by simp
next
  case (Cons x ms)
  show ?case
  proof (cases "m = x")
    case True
    let ?acc1 = "if n \<noteq> [] then set_add (lower n) acc else acc"
    from Cons.prems True
    have "y360_member_nicknames idx
            (foldl (\<lambda>a alias. set_add (lower alias) a) ?acc1 (u_aliases u)) ms = Inr mn"
      by (simp add: Let_def)
    from member_nicknames_acc [OF this] show ?thesis
      by (auto simp: set_foldl_set_add set_set_add split: if_splits)
  next
    case False
    with Cons.prems have m: "m \<in> set ms" by simp
    from Cons.prems(1) obtain acc' where "y360_member_nicknames idx acc' ms = Inr mn"
      by (auto simp: Let_def split: option.splits)
    from Cons.IH [OF this m Cons.prems(3,4)] show ?thesis .
  qed
qed

lemma set_users_to_add:
  "set (users_to_add idx mn ad) =
     {x. \<exists>h \<in> set ad. h \<notin> set mn \<and> (\<exists>u. idx h = Some u \<and> x = \<lparr>nickname = h, user_id = u_id u\<rparr>)}"
  by (auto simp: users_to_add_def set_map_filter split: if_splits option.splits)

lemma set_users_to_remove:
  "set (users_to_remove ms ad) =
     {x. \<exists>m \<in> set ms. \<exists>n. u_nickname m = Some n \<and> n \<noteq> [] \<and> lower n \<notin> set ad \<and>
            x = \<lparr>nickname = n, user_id = u_id m\<rparr>}"
proof -
  have f: "\<And>m x. ((case u_nickname m of
            None \<Rightarrow> None
          | Some nick \<Rightarrow>
              if nick \<noteq> [] then
                (if lower nick \<notin> set ad
                 then Some \<lparr>nickname = nick, user_id = u_id m\<rparr> else None)
              else None) = Some x) \<longleftrightarrow>
         (\<exists>n. u_nickname m = Some n \<and> n \<noteq> [] \<and> lower n \<notin> set ad \<and>
            x = \<lparr>nickname = n, user_id = u_id m\<rparr>)"
    subgoal for m x by (cases "u_nickname m") auto
    done
  show ?thesis unfolding users_to_remove_def set_map_filter f ..
qed

text \<open>
  Claim C2, as amended.  When the target users have distinct ids and the current
  members agree with the index of the target users (\<open>members_indexed\<close>), no user id is
  selected both for addition and for removal in the reconciliation of a group.
\<close>

theorem add_remove_disjoint:
  assumes d: "distinct (map u_id y360_users)"
    and c: "members_indexed y360_users members"
    and r: "y360_member_nicknames (y360_users_by_nickname y360_users) [] members = Inr mn"
  shows "user_id ` set (users_to_add (y360_users_by_nickname y360_users) mn ad_set)
           \<inter> user_id ` set (users_to_remove members ad_set) = {}"
proof (rule ccontr)
  let ?idx = "y360_users_by_nickname y360_users"
  assume "\<not> ?thesis"
  then obtain x y where x: "x \<in> set (users_to_add ?idx mn ad_set)"
    and y: "y \<in> set (users_to_remove members ad_set)" and xy: "user_id x = user_id y"
    by auto
  from x obtain h u where h: "h \<in> set ad_set" "h \<notin> set mn" "?idx h = Some u"
    "user_id x = u_id u"
    by (auto simp: set_users_to_add)
  from y obtain m n where m: "m \<in> set members" "u_nickname m = Some n" "n \<noteq> []"
    "lower n \<notin> set ad_set" "user_id y = u_id m"
    by (auto simp: set_users_to_remove)
  from c m obtain u' n' where u': "?idx (lower n) = Some u'" "u_id u' = u_id m"
    "u_nickname u' = Some n'" "lower n' = lower n"
    unfolding members_indexed_def by blast
  from users_index_lookup [OF h(3)] obtain nick where u: "u \<in> set y360_users"
    "u_nickname u = Some nick" "h = lower nick \<or> h \<in> lower ` set (u_aliases u)"
    by blast
  from users_index_lookup [OF u'(1)] have "u' \<in> set y360_users" by blast
  moreover have "u_id u' = u_id u" using u'(2) m(5) h(4) xy by simp
  ultimately have eq: "u' = u" using d u(1) by (meson distinct_map inj_onD)
  from u(3) show False
  proof
    assume "h = lower nick"
    with u(2) u'(3,4) eq have "h = lower n" by simp
    with h(1) m(4) show False by simp
  next
    assume "h \<in> lower ` set (u_aliases u)"
    moreover from member_nicknames_aliases [OF r m(1,2) u'(1)] eq
    have "lower ` set (u_aliases u) \<subseteq> set mn" by simp
    ultimately show False using h(2) by blast
  qed
qed

text \<open>The theorem at the members \<open>alice\<close> and \<open>bob\<close> and the source handles
  \<^verbatim>\<open>a.smith\<close> and \<^verbatim>\<open>carol\<close>.\<close>

theorem add_remove_disjoint_witness:
  "distinct (map u_id [alice, bob, carol]) \<and>
   members_indexed [alice, bob, carol] [alice, bob] \<and>
   y360_member_nicknames (y360_users_by_nickname [alice, bob, carol]) [] [alice, bob]
     = Inr [''alice'', ''a.smith'', ''bob''] \<and>
   user_id ` set (users_to_add (y360_users_by_nickname [alice, bob, carol])
                    [''alice'', ''a.smith'', ''bob''] [''a.smith'', ''carol''])
     \<inter> user_id ` set (users_to_remove [alice, bob] [''a.smith'', ''carol'']) = {}"
proof -
  have d: "distinct (map u_id [alice, bob, carol])"
    by (simp add: fixtures)
  have c: "members_indexed [alice, bob, carol] [alice, bob]"
    by (simp add: members_indexed_def fixtures y360_users_by_nickname_def index_user_def
        string_defs)
  have r: "y360_member_nicknames (y360_users_by_nickname [alice, bob, carol]) [] [alice, bob]
     = Inr [''alice'', ''a.smith'', ''bob'']"
    by (simp add: fixtures y360_users_by_nickname_def index_user_def string_defs)
  from add_remove_disjoint [OF d c r] d c r show ?thesis by simp
qed

text \<open>
  Claim C2 as stated fails.  The target user \<open>ben\<close> claims the nickname of \<open>ann\<close> as an
  alias and comes later in the user list, so the index resolves \<^verbatim>\<open>a\<close> to \<open>ben\<close>.  With
  \<open>ann\<close> the only member and \<^verbatim>\<open>z\<close>, an alias of \<open>ann\<close>, the only source handle, the
  id of \<open>ann\<close> is selected for addition and for removal.
\<close>

theorem alias_collision_counterexample:
  "member_decisions (sync_group_members_run (api_ok (\<lambda>_. [ann])) True z_files
                       [sales] [sales_target] [ann, ben])
     = [AddUser (Some 7) \<lparr>nickname = ''z'', user_id = Some ''1''\<rparr>,
        RemoveUser (Some 7) \<lparr>nickname = ''a'', user_id = Some ''1''\<rparr>]"
  by (simp add: fixtures member_defs string_defs)

lemma lower_char_idem: "lower_char (lower_char c) = lower_char c"
  by (simp add: lower_char_def)

lemma lower_idem: "lower (lower s) = lower s"
  by (simp add: lower_def lower_char_idem)

lemma set_ad_nicknames_set_foldl:
  "set (foldl (\<lambda>acc ad_email.
              if CHR ''@'' \<in> set ad_email
              then set_add (lower (split_first CHR ''@'' ad_email)) acc else acc)
           acc es)
   = set acc \<union> {lower (split_first CHR ''@'' e) | e. e \<in> set es \<and> CHR ''@'' \<in> set e}"
  by (induction es arbitrary: acc) (auto simp: set_set_add)

lemma set_ad_nicknames_set:
  "set (ad_nicknames_set es)
     = {lower (split_first CHR ''@'' e) | e. e \<in> set es \<and> CHR ''@'' \<in> set e}"
  by (simp add: ad_nicknames_set_def set_ad_nicknames_set_foldl)

lemma ad_nicknames_lower: "h \<in> set (ad_nicknames_set es) \<Longrightarrow> lower h = h"
  by (auto simp: set_ad_nicknames_set lower_idem)

lemma index_user_own:
  "u_nickname u = Some n \<Longrightarrow> n \<noteq> [] \<Longrightarrow> index_user idx u (lower n) = Some u"
  by (simp add: index_user_def foldl_alias_lookup)

lemma index_user_other: "k \<notin> handles v \<Longrightarrow> index_user idx v k = idx k"
  by (auto simp: index_user_def handles_def foldl_alias_lookup split: option.splits if_splits)

lemma foldl_index_user_other:
  "\<forall>v \<in> set vs. k \<notin> handles v \<Longrightarrow> foldl index_user idx vs k = idx k"
  by (induction vs arbitrary: idx) (simp_all add: index_user_other)

text \<open>
  The index resolves the nickname of a target user to that user when no user later in
  the list has the nickname among its handles.
\<close>

lemma index_resolves_own_nickname:
  assumes "y360_users = before @ u # later" and "u_nickname u = Some n" and "n \<noteq> []"
    and "\<forall>v \<in> set later. lower n \<notin> handles v"
  shows "y360_users_by_nickname y360_users (lower n) = Some u"
  using assms
  by (simp add: y360_users_by_nickname_def foldl_index_user_other index_user_own)

text \<open>
  Claim C6, as amended.  Let the target user \<open>u\<close> be a current member of the group (the
  member list has an entry with the id and the nickname of \<open>u\<close>), and let no user that
  comes after \<open>u\<close> in the list of target users have the nickname of \<open>u\<close> as its own
  nickname or as an alias, up to case.  Then no entry of \<^verbatim>\<open>users_to_add\<close> has a
  nickname that equals an alias of \<open>u\<close> up to case, whatever the addresses in the
  membership file.
\<close>

theorem alias_not_added:
  assumes "y360_member_nicknames (y360_users_by_nickname y360_users) [] members = Inr mn"
    and "m \<in> set members" and "u_id m = u_id u" and "u_nickname m = Some n"
    and "y360_users = before @ u # later" and "u_nickname u = Some n" and "n \<noteq> []"
    and "\<forall>v \<in> set later. lower n \<notin> handles v"
    and "al \<in> set (u_aliases u)"
  shows "\<forall>x \<in> set (users_to_add (y360_users_by_nickname y360_users) mn
                       (ad_nicknames_set ad_member_emails)).
           lower (nickname x) \<noteq> lower al"
proof
  fix x
  assume "x \<in> set (users_to_add (y360_users_by_nickname y360_users) mn
                     (ad_nicknames_set ad_member_emails))"
  then have h: "nickname x \<in> set (ad_nicknames_set ad_member_emails)" "nickname x \<notin> set mn"
    by (auto simp: set_users_to_add)
  have i: "y360_users_by_nickname y360_users (lower n) = Some u"
    using assms(5-8) by (rule index_resolves_own_nickname)
  from member_nicknames_aliases [OF assms(1,2,4) i] assms(9) have "lower al \<in> set mn" by blast
  with h(2) have "nickname x \<noteq> lower al" by auto
  with ad_nicknames_lower [OF h(1)] show "lower (nickname x) \<noteq> lower al" by simp
qed

text \<open>
  The theorem at the member \<open>alice\<close>, her alias \<^verbatim>\<open>a.smith\<close> and a membership file that
  spells it \<^verbatim>\<open>A.Smith\<close>: only \<open>carol\<close> is to be added.
\<close>

theorem alias_not_added_witness:
  "y360_member_nicknames (y360_users_by_nickname [alice, bob, carol]) [] [alice, bob]
     = Inr [''alice'', ''a.smith'', ''bob''] \<and>
   alice \<in> set [alice, bob] \<and> u_nickname alice = Some ''alice'' \<and>
   [alice, bob, carol] = [] @ alice # [bob, carol] \<and>
   lower ''alice'' \<notin> handles bob \<and> lower ''alice'' \<notin> handles carol \<and>
   ''a.smith'' \<in> set (u_aliases alice) \<and>
   users_to_add (y360_users_by_nickname [alice, bob, carol]) [''alice'', ''a.smith'', ''bob'']
       (ad_nicknames_set [''A.Smith@x'', ''carol@x''])
     = [\<lparr>nickname = ''carol'', user_id = Some ''3''\<rparr>] \<and>
   lower (nickname \<lparr>nickname = ''carol'', user_id = Some ''3''\<rparr>) \<noteq> lower ''a.smith''"
proof -
  have r: "y360_member_nicknames (y360_users_by_nickname [alice, bob, carol]) [] [alice, bob]
     = Inr [''alice'', ''a.smith'', ''bob'']"
    by (simp add: fixtures y360_users_by_nickname_def index_user_def string_defs)
  have m: "alice \<in> set [alice, bob]" by simp
  have n: "u_nickname alice = Some ''alice''" "''alice'' \<noteq> []" by (simp_all add: alice_def)
  have l: "[alice, bob, carol] = [] @ alice # [bob, carol]" by simp
  have o: "lower ''alice'' \<notin> handles bob" "lower ''alice'' \<notin> handles carol"
    by (simp_all add: fixtures handles_def string_defs)
  then have o': "\<forall>v \<in> set [bob, carol]. lower ''alice'' \<notin> handles v" by simp
  have a: "''a.smith'' \<in> set (u_aliases alice)" by (simp add: alice_def)
  have t: "users_to_add (y360_users_by_nickname [alice, bob, carol])
             [''alice'', ''a.smith'', ''bob''] (ad_nicknames_set [''A.Smith@x'', ''carol@x''])
     = [\<lparr>nickname = ''carol'', user_id = Some ''3''\<rparr>]"
    by (simp add: fixtures y360_users_by_nickname_def index_user_def users_to_add_def
        ad_nicknames_set_def string_defs)
  from alias_not_added [OF r m refl n(1) l n o' a, of "[''A.Smith@x'', ''carol@x'']"]
  have "lower (nickname \<lparr>nickname = ''carol'', user_id = Some ''3''\<rparr>) \<noteq> lower ''a.smith''"
    unfolding t by simp
  with r m n l o a t show ?thesis by blast
qed

text \<open>
  Claim C6 as stated fails.  The target user \<open>ann\<close> is the only member of the group and
  has the alias \<^verbatim>\<open>z\<close>; \<open>ben\<close>, later in the user list, has her nickname \<^verbatim>\<open>a\<close> as an
  alias, so the index resolves \<^verbatim>\<open>a\<close> to \<open>ben\<close> and the aliases of \<open>ann\<close> are not
  entered in the set of member nicknames.  The source handle \<^verbatim>\<open>Z\<close> is then selected
  for addition, under the id of \<open>ann\<close>.
\<close>

theorem member_alias_added_counterexample:
  "ann \<in> set [ann, ben] \<and> ''z'' \<in> set (u_aliases ann) \<and>
   y360_member_nicknames (y360_users_by_nickname [ann, ben]) [] [ann] = Inr [''a''] \<and>
   users_to_add (y360_users_by_nickname [ann, ben]) [''a''] (ad_nicknames_set [''Z@x''])
     = [\<lparr>nickname = ''z'', user_id = Some ''1''\<rparr>]"
  by (simp add: fixtures y360_users_by_nickname_def index_user_def users_to_add_def
        ad_nicknames_set_def string_defs)


section \<open>Groups without a membership file\<close>

lemma missing_file_no_emails:
  "displayName s = Some dn \<Longrightarrow>
   fs (filename_prefix @ replace_char CHR 0x20 CHR ''_'' dn @ ''.csv'') = Missing \<Longrightarrow>
   get_group_members_from_file fs s = []"
  by (simp add: get_group_members_from_file_def Let_def)

text \<open>
  Claim C10, as amended.  For a tagged target group matched to a source group whose
  membership file is missing or yields no address, the loop body issues the read of
  the current members and no other remote call, takes no membership decision and
  leaves the counters of added and removed users alone.  When that read succeeds and
  the alias expansion of the members completes, the body is exactly: one more group
  processed, one more found, one more skipped.
\<close>

theorem empty_file_skips_group:
  assumes "raised st = None" and "y_externalId g = Some (''DDG;'' @ guid)"
    and "by_guid guid = Some s" and "get_group_members_from_file fs s = []"
  shows "member_calls (process_y360_group a dry fs by_guid by_nickname st g)
           = member_calls st @ [GetMembers (y_id g)] \<and>
         member_decisions (process_y360_group a dry fs by_guid by_nickname st g)
           = member_decisions st \<and>
         users_added_count (process_y360_group a dry fs by_guid by_nickname st g)
           = users_added_count st \<and>
         users_removed_count (process_y360_group a dry fs by_guid by_nickname st g)
           = users_removed_count st \<and>
         (\<forall>ms mn. get_group_members_by_api a (member_calls st) (y_id g) = (True, ms) \<longrightarrow>
              y360_member_nicknames by_nickname [] ms = Inr mn \<longrightarrow>
              process_y360_group a dry fs by_guid by_nickname st g
                = st\<lparr>y360_groups_processed := y360_groups_processed st + 1,
                      ad_groups_found := ad_groups_found st + 1,
                      skipped_groups_count := skipped_groups_count st + 1,
                      member_calls := member_calls st @ [GetMembers (y_id g)]\<rparr>)"
proof -
  have t: "startswith (get_default (y_externalId g) []) ''DDG;''"
    using taggedI [OF assms(2)] by (simp add: tagged_def)
  have i: "index1 (split_maxsplit1 CHR '';'' (get_default (y_externalId g) [])) = Inr guid"
    using assms(2) split_DDG [of guid] by (simp add: get_default_def)
  obtain ok ms where g: "get_group_members_by_api a (member_calls st) (y_id g) = (ok, ms)"
    by (cases "get_group_members_by_api a (member_calls st) (y_id g)")
  show ?thesis
  proof (cases ok)
    case False
    with assms t i g show ?thesis
      by (simp add: process_y360_group_def Let_def)
  next
    case True
    show ?thesis
    proof (cases "y360_member_nicknames by_nickname [] ms")
      case (Inl e)
      with assms t i g True show ?thesis
        by (simp add: process_y360_group_def reconcile_group_def Let_def)
    next
      case (Inr mn)
      with assms t i g True show ?thesis
        by (simp add: process_y360_group_def reconcile_group_def Let_def)
    qed
  qed
qed

text \<open>The theorem at the group \<open>sales_target\<close> with members and no file.\<close>

theorem empty_file_skips_group_witness:
  "raised init_mstate = None \<and> y_externalId sales_target = Some (''DDG;'' @ ''G1'') \<and>
   ad_groups_by_guid [sales] ''G1'' = Some sales \<and>
   get_group_members_from_file (\<lambda>_. Missing) sales = [] \<and>
   process_y360_group (api_ok (\<lambda>_. [alice, bob])) False (\<lambda>_. Missing)
       (ad_groups_by_guid [sales]) (y360_users_by_nickname [alice, bob, carol])
       init_mstate sales_target
     = init_mstate\<lparr>y360_groups_processed := 1, ad_groups_found := 1,
                    skipped_groups_count := 1,
                    member_calls := [GetMembers (Some 7)]\<rparr>"
proof -
  have h: "raised init_mstate = None" "y_externalId sales_target = Some (''DDG;'' @ ''G1'')"
    "ad_groups_by_guid [sales] ''G1'' = Some sales"
    "get_group_members_from_file (\<lambda>_. Missing) sales = []"
    by (simp_all add: init_mstate_def fixtures ad_groups_by_guid_def
        get_group_members_from_file_def Let_def)
  have g: "get_group_members_by_api (api_ok (\<lambda>_. [alice, bob])) (member_calls init_mstate)
             (y_id sales_target) = (True, [alice, bob])"
    by (simp add: api_ok_def)
  have r: "y360_member_nicknames (y360_users_by_nickname [alice, bob, carol]) [] [alice, bob]
     = Inr [''alice'', ''a.smith'', ''bob'']"
    by (simp add: fixtures y360_users_by_nickname_def index_user_def string_defs)
  from empty_file_skips_group [where a = "api_ok (\<lambda>_. [alice, bob])" and dry = False
      and by_nickname = "y360_users_by_nickname [alice, bob, carol]"
      and by_guid = "ad_groups_by_guid [sales]" and fs = "\<lambda>_. Missing" and st = init_mstate
      and g = sales_target and guid = "''G1''" and s = sales, OF h,
      THEN conjunct2, THEN conjunct2, THEN conjunct2, THEN conjunct2, rule_format, OF g r]
    h
  show ?thesis by (simp add: init_mstate_def sales_target_def)
qed

text \<open>
  Claim C10 as stated fails: when the read of the current members fails, the group
  without a file is counted as an error, not as skipped.
\<close>

theorem failed_read_not_skipped_counterexample:
  "get_group_members_from_file (\<lambda>_. Missing) sales = [] \<and>
   skipped_groups_count (sync_group_members_run api_read_fails False (\<lambda>_. Missing)
                           [sales] [sales_target] [alice]) = 0 \<and>
   member_errors_count (sync_group_members_run api_read_fails False (\<lambda>_. Missing)
                          [sales] [sales_target] [alice]) = 1"
  by (simp add: fixtures api_read_fails_def member_defs string_defs)

section \<open>Dry run and live run\<close>

lemma do_create_dry_live:
  "all_succeed a \<Longrightarrow> st\<lparr>calls := []\<rparr> = st'\<lparr>calls := []\<rparr> \<Longrightarrow>
   (do_create a False gd st)\<lparr>calls := []\<rparr> = (do_create a True gd st')\<lparr>calls := []\<rparr>"
  by (cases st; cases st') (simp add: do_create_def all_succeed_def Let_def)

lemma do_update_dry_live:
  "all_succeed a \<Longrightarrow> st\<lparr>calls := []\<rparr> = st'\<lparr>calls := []\<rparr> \<Longrightarrow>
   (do_update a False g c st)\<lparr>calls := []\<rparr> = (do_update a True g c st')\<lparr>calls := []\<rparr>"
  by (cases st; cases st') (simp add: do_update_def all_succeed_def Let_def)

lemma do_delete_dry_live:
  "all_succeed a \<Longrightarrow> st\<lparr>calls := []\<rparr> = st'\<lparr>calls := []\<rparr> \<Longrightarrow>
   (do_delete a False st d)\<lparr>calls := []\<rparr> = (do_delete a True st' d)\<lparr>calls := []\<rparr>"
  by (cases st; cases st') (simp add: do_delete_def all_succeed_def Let_def)

lemma skip_dry_live:
  "st\<lparr>calls := []\<rparr> = st'\<lparr>calls := []\<rparr> \<Longrightarrow>
   (st\<lparr>skipped_count := skipped_count st + 1\<rparr>)\<lparr>calls := []\<rparr>
     = (st'\<lparr>skipped_count := skipped_count st' + 1\<rparr>)\<lparr>calls := []\<rparr>"
  by (cases st; cases st') simp

lemma process_ad_group_dry_live:
  assumes "all_succeed a" and "st\<lparr>calls := []\<rparr> = st'\<lparr>calls := []\<rparr>"
  shows "(process_ad_group a False idx st s)\<lparr>calls := []\<rparr>
           = (process_ad_group a True idx st' s)\<lparr>calls := []\<rparr>"
  using assms
  by (cases st; cases st')
     (simp add: process_ad_group_def do_create_def do_update_def all_succeed_def Let_def
        split: option.splits)

lemma foldl_process_dry_live:
  "all_succeed a \<Longrightarrow> st\<lparr>calls := []\<rparr> = st'\<lparr>calls := []\<rparr> \<Longrightarrow>
   (foldl (process_ad_group a False idx) st ss)\<lparr>calls := []\<rparr>
     = (foldl (process_ad_group a True idx) st' ss)\<lparr>calls := []\<rparr>"
  by (induction ss arbitrary: st st') (simp_all add: process_ad_group_dry_live)

lemma foldl_delete_dry_live:
  "all_succeed a \<Longrightarrow> st\<lparr>calls := []\<rparr> = st'\<lparr>calls := []\<rparr> \<Longrightarrow>
   (foldl (do_delete a False) st ds)\<lparr>calls := []\<rparr>
     = (foldl (do_delete a True) st' ds)\<lparr>calls := []\<rparr>"
  by (induction ds arbitrary: st st') (simp_all add: do_delete_dry_live)

lemma run_dry_live:
  assumes "all_succeed a"
  shows "(sync_ad_groups_run a False ad ys)\<lparr>calls := []\<rparr>
           = (sync_ad_groups_run a True ad ys)\<lparr>calls := []\<rparr>"
  unfolding sync_ad_groups_run_def Let_def
  by (simp add: foldl_delete_dry_live [OF assms] foldl_process_dry_live [OF assms])

lemma gstate_result_cong:
  "st\<lparr>calls := []\<rparr> = st'\<lparr>calls := []\<rparr> \<Longrightarrow>
   errors_count st = errors_count st' \<and> group_stats.truncate st = group_stats.truncate st'
   \<and> decisions st = decisions st'"
  by (cases st; cases st') (simp add: group_stats.truncate_def)

lemma sync_ad_groups_dry_live:
  assumes "all_succeed a"
  shows "sync_ad_groups_to_y360 a True ad ys = sync_ad_groups_to_y360 a False ad ys"
  using gstate_result_cong [OF run_dry_live [OF assms, of ad ys]]
  by (simp add: sync_ad_groups_to_y360_def Let_def)


lemma do_add_dry_live:
  "all_succeed a \<Longrightarrow> st\<lparr>member_calls := []\<rparr> = st'\<lparr>member_calls := []\<rparr> \<Longrightarrow>
   (do_add a False gid st x)\<lparr>member_calls := []\<rparr> = (do_add a True gid st' x)\<lparr>member_calls := []\<rparr>"
  by (cases st; cases st') (simp add: do_add_def all_succeed_def Let_def)

lemma do_remove_dry_live:
  "all_succeed a \<Longrightarrow> st\<lparr>member_calls := []\<rparr> = st'\<lparr>member_calls := []\<rparr> \<Longrightarrow>
   (do_remove a False gid st x)\<lparr>member_calls := []\<rparr>
     = (do_remove a True gid st' x)\<lparr>member_calls := []\<rparr>"
  by (cases st; cases st') (simp add: do_remove_def all_succeed_def Let_def)

lemma foldl_add_dry_live:
  "all_succeed a \<Longrightarrow> st\<lparr>member_calls := []\<rparr> = st'\<lparr>member_calls := []\<rparr> \<Longrightarrow>
   (foldl (do_add a False gid) st xs)\<lparr>member_calls := []\<rparr>
     = (foldl (do_add a True gid) st' xs)\<lparr>member_calls := []\<rparr>"
  by (induction xs arbitrary: st st') (simp_all add: do_add_dry_live)

lemma foldl_remove_dry_live:
  "all_succeed a \<Longrightarrow> st\<lparr>member_calls := []\<rparr> = st'\<lparr>member_calls := []\<rparr> \<Longrightarrow>
   (foldl (do_remove a False gid) st xs)\<lparr>member_calls := []\<rparr>
     = (foldl (do_remove a True gid) st' xs)\<lparr>member_calls := []\<rparr>"
  by (induction xs arbitrary: st st') (simp_all add: do_remove_dry_live)

lemma reconcile_group_dry_live:
  assumes a: "all_succeed a" and r: "st\<lparr>member_calls := []\<rparr> = st'\<lparr>member_calls := []\<rparr>"
  shows "(reconcile_group a False fs idx s gid ms st)\<lparr>member_calls := []\<rparr>
           = (reconcile_group a True fs idx s gid ms st')\<lparr>member_calls := []\<rparr>"
proof (cases "y360_member_nicknames idx [] ms")
  case (Inl e)
  with r show ?thesis
    by (cases st; cases st') (simp add: reconcile_group_def)
next
  case (Inr mn)
  show ?thesis
  proof (cases "get_group_members_from_file fs s = []")
    case True
    with Inr r show ?thesis
      by (cases st; cases st') (simp add: reconcile_group_def)
  next
    case False
    let ?ad = "ad_nicknames_set (get_group_members_from_file fs s)"
    let ?n = "users_not_found idx mn ?ad"
    have "(st\<lparr>users_not_found_count := users_not_found_count st + ?n\<rparr>)\<lparr>member_calls := []\<rparr>
            = (st'\<lparr>users_not_found_count := users_not_found_count st' + ?n\<rparr>)\<lparr>member_calls := []\<rparr>"
      using r by (cases st; cases st') simp
    from foldl_remove_dry_live [OF a foldl_add_dry_live [OF a this]] Inr False
    show ?thesis by (simp add: reconcile_group_def Let_def)
  qed
qed

lemma process_y360_group_dry_live:
  assumes a: "all_succeed a" and f: "fixed_snapshot a"
    and r: "st\<lparr>member_calls := []\<rparr> = st'\<lparr>member_calls := []\<rparr>"
  shows "(process_y360_group a False fs by_guid idx st g)\<lparr>member_calls := []\<rparr>
           = (process_y360_group a True fs by_guid idx st' g)\<lparr>member_calls := []\<rparr>"
proof -
  have raised: "raised st = raised st'"
    using r by (cases st; cases st') simp
  show ?thesis
  proof (cases "raised st \<noteq> None \<or> \<not> startswith (get_default (y_externalId g) []) ''DDG;''")
    case True
    with r raised show ?thesis by (auto simp: process_y360_group_def Let_def)
  next
    case False
    let ?st1 = "st\<lparr>y360_groups_processed := y360_groups_processed st + 1\<rparr>"
    let ?st1' = "st'\<lparr>y360_groups_processed := y360_groups_processed st' + 1\<rparr>"
    show ?thesis
    proof (cases "index1 (split_maxsplit1 CHR '';'' (get_default (y_externalId g) []))")
      case (Inl e)
      with False raised r show ?thesis
        by (cases st; cases st') (simp add: process_y360_group_def Let_def)
    next
      case (Inr guid)
      show ?thesis
      proof (cases "by_guid guid")
        case None
        with Inr False raised r show ?thesis
          by (cases st; cases st') (simp add: process_y360_group_def Let_def)
      next
        case (Some s)
        obtain ok ms where g0: "get_group_members_by_api a [] (y_id g) = (ok, ms)"
          by (cases "get_group_members_by_api a [] (y_id g)")
        have g: "\<And>h. get_group_members_by_api a h (y_id g) = (ok, ms)"
          using f g0 unfolding fixed_snapshot_def by metis
        let ?st3 = "\<lambda>t. t\<lparr>y360_groups_processed := y360_groups_processed t + 1,
                             ad_groups_found := ad_groups_found t + 1,
                             member_calls := member_calls t @ [GetMembers (y_id g)]\<rparr>"
        have r3: "(?st3 st)\<lparr>member_calls := []\<rparr> = (?st3 st')\<lparr>member_calls := []\<rparr>"
          using r by (cases st; cases st') simp
        show ?thesis
        proof (cases ok)
          case False
          with Some Inr \<open>\<not> (raised st \<noteq> None \<or> _)\<close> raised r g show ?thesis
            by (cases st; cases st')
               (simp add: process_y360_group_def Let_def)
        next
          case True
          have p: "\<And>d t. raised t = None \<Longrightarrow>
                     process_y360_group a d fs by_guid idx t g
                       = reconcile_group a d fs idx s (y_id g) ms (?st3 t)"
            using Some Inr \<open>\<not> (raised st \<noteq> None \<or> _)\<close> g True
            by (simp add: process_y360_group_def Let_def)
          from \<open>\<not> (raised st \<noteq> None \<or> _)\<close> raised
          have n: "raised st = None" "raised st' = None" by auto
          show ?thesis
            unfolding p [OF n(1)] p [OF n(2)] by (rule reconcile_group_dry_live [OF a r3])
        qed
      qed
    qed
  qed
qed

lemma foldl_process_y360_dry_live:
  "all_succeed a \<Longrightarrow> fixed_snapshot a \<Longrightarrow>
   st\<lparr>member_calls := []\<rparr> = st'\<lparr>member_calls := []\<rparr> \<Longrightarrow>
   (foldl (process_y360_group a False fs by_guid idx) st gs)\<lparr>member_calls := []\<rparr>
     = (foldl (process_y360_group a True fs by_guid idx) st' gs)\<lparr>member_calls := []\<rparr>"
  by (induction gs arbitrary: st st') (simp_all add: process_y360_group_dry_live)

lemma members_run_dry_live:
  assumes "all_succeed a" "fixed_snapshot a"
  shows "(sync_group_members_run a False fs ad ys us)\<lparr>member_calls := []\<rparr>
           = (sync_group_members_run a True fs ad ys us)\<lparr>member_calls := []\<rparr>"
  unfolding sync_group_members_run_def Let_def
  by (simp add: foldl_process_y360_dry_live [OF assms])

lemma mstate_result_cong:
  "st\<lparr>member_calls := []\<rparr> = st'\<lparr>member_calls := []\<rparr> \<Longrightarrow>
   member_errors_count st = member_errors_count st' \<and> raised st = raised st'
   \<and> member_stats.truncate st = member_stats.truncate st'
   \<and> member_decisions st = member_decisions st'"
  by (cases st; cases st') (simp add: member_stats.truncate_def)

lemma sync_group_members_dry_live:
  assumes "all_succeed a" "fixed_snapshot a"
  shows "sync_group_members a True fs ad ys us = sync_group_members a False fs ad ys us"
  using mstate_result_cong [OF members_run_dry_live [OF assms, of fs ad ys us]]
  by (simp add: sync_group_members_def Let_def split: option.splits)


lemma do_add_dry_calls: "member_calls (do_add a True gid st x) = member_calls st"
  by (simp add: do_add_def Let_def)

lemma do_remove_dry_calls: "member_calls (do_remove a True gid st x) = member_calls st"
  by (simp add: do_remove_def Let_def)

lemma foldl_add_dry_calls: "member_calls (foldl (do_add a True gid) st xs) = member_calls st"
  by (induction xs arbitrary: st) (simp_all add: do_add_dry_calls)

lemma foldl_remove_dry_calls:
  "member_calls (foldl (do_remove a True gid) st xs) = member_calls st"
  by (induction xs arbitrary: st) (simp_all add: do_remove_dry_calls)

lemma reconcile_group_dry_calls:
  "member_calls (reconcile_group a True fs idx s gid ms st) = member_calls st"
  by (simp add: reconcile_group_def Let_def foldl_remove_dry_calls foldl_add_dry_calls
      split: sum.splits)

lemma process_y360_group_dry_calls:
  "filter mutating (member_calls (process_y360_group a True fs by_guid idx st g))
     = filter mutating (member_calls st)"
  by (simp add: process_y360_group_def Let_def reconcile_group_dry_calls
      split: sum.splits option.splits prod.splits)

lemma foldl_process_y360_dry_calls:
  "filter mutating (member_calls (foldl (process_y360_group a True fs by_guid idx) st gs))
     = filter mutating (member_calls st)"
  by (induction gs arbitrary: st) (simp_all add: process_y360_group_dry_calls)

lemma members_run_dry_calls:
  "filter mutating (member_calls (sync_group_members_run a True fs ad ys us)) = []"
  by (simp add: sync_group_members_run_def Let_def foldl_process_y360_dry_calls init_mstate_def)

text \<open>
  Claim C3.  On a remote layer where every mutating call succeeds and reports its
  change applied, and where the members reported for a group do not depend on the
  calls issued before, a dry run and a live run return the same value, statistics
  included, and take the same decisions, for the group synchronisation and for the
  membership synchronisation (on any inputs of its own).  A dry run of the group
  synchronisation issues no remote call at all, and a dry run of the membership
  synchronisation issues no mutating one; these two hold on every remote layer.
\<close>

theorem dry_run_equivalence:
  assumes "all_succeed a" and "fixed_snapshot a"
  shows "sync_ad_groups_to_y360 a True ad ys = sync_ad_groups_to_y360 a False ad ys \<and>
         decisions (sync_ad_groups_run a True ad ys)
           = decisions (sync_ad_groups_run a False ad ys) \<and>
         sync_group_members a True fs ad' ys' us = sync_group_members a False fs ad' ys' us \<and>
         member_decisions (sync_group_members_run a True fs ad' ys' us)
           = member_decisions (sync_group_members_run a False fs ad' ys' us) \<and>
         calls (sync_ad_groups_run a True ad ys) = [] \<and>
         filter mutating (member_calls (sync_group_members_run a True fs ad' ys' us)) = []"
proof (intro conjI)
  show "sync_ad_groups_to_y360 a True ad ys = sync_ad_groups_to_y360 a False ad ys"
    by (rule sync_ad_groups_dry_live [OF assms(1)])
  show "decisions (sync_ad_groups_run a True ad ys)
           = decisions (sync_ad_groups_run a False ad ys)"
    using gstate_result_cong [OF run_dry_live [OF assms(1), of ad ys]] by simp
  show "sync_group_members a True fs ad' ys' us = sync_group_members a False fs ad' ys' us"
    by (rule sync_group_members_dry_live [OF assms])
  show "member_decisions (sync_group_members_run a True fs ad' ys' us)
           = member_decisions (sync_group_members_run a False fs ad' ys' us)"
    using mstate_result_cong [OF members_run_dry_live [OF assms, of fs ad' ys' us]] by simp
  show "calls (sync_ad_groups_run a True ad ys) = []"
    by (simp add: run_calls)
  show "filter mutating (member_calls (sync_group_members_run a True fs ad' ys' us)) = []"
    by (rule members_run_dry_calls)
qed

lemma api_ok_all_succeed: "all_succeed (api_ok ms)"
  by (simp add: all_succeed_def api_ok_def)

lemma api_ok_fixed_snapshot: "fixed_snapshot (api_ok ms)"
  by (simp add: fixed_snapshot_def api_ok_def)

text \<open>The theorem on the remote layer \<open>api_ok\<close>, with the values both modes return.\<close>

theorem dry_run_equivalence_witness:
  "all_succeed (api_ok (\<lambda>_. [alice, bob])) \<and> fixed_snapshot (api_ok (\<lambda>_. [alice, bob])) \<and>
   sync_ad_groups_to_y360 (api_ok (\<lambda>_. [alice, bob])) True [sales] [stale_target, orphan, foreign]
     = sync_ad_groups_to_y360 (api_ok (\<lambda>_. [alice, bob])) False [sales]
         [stale_target, orphan, foreign] \<and>
   sync_ad_groups_to_y360 (api_ok (\<lambda>_. [alice, bob])) False [sales] [stale_target, orphan, foreign]
     = (True, \<lparr>ad_groups_count = 1, y360_groups_count = 3, created_count = 0,
               updated_count = 1, deleted_count = 1, errors_count = 0, skipped_count = 0\<rparr>) \<and>
   sync_group_members (api_ok (\<lambda>_. [alice, bob])) True sales_files [sales] [sales_target]
       [alice, bob, carol]
     = sync_group_members (api_ok (\<lambda>_. [alice, bob])) False sales_files [sales] [sales_target]
         [alice, bob, carol] \<and>
   sync_group_members (api_ok (\<lambda>_. [alice, bob])) False sales_files [sales] [sales_target]
       [alice, bob, carol]
     = Inr (True, \<lparr>y360_groups_processed = 1, ad_groups_found = 1, users_added_count = 1,
                   users_removed_count = 2, users_not_found_count = 0,
                   member_errors_count = 0, skipped_groups_count = 0\<rparr>)"
proof -
  have h: "all_succeed (api_ok (\<lambda>_. [alice, bob]))" "fixed_snapshot (api_ok (\<lambda>_. [alice, bob]))"
    by (simp_all add: all_succeed_def fixed_snapshot_def api_ok_def)
  have g: "sync_ad_groups_to_y360 (api_ok (\<lambda>_. [alice, bob])) False [sales]
             [stale_target, orphan, foreign]
     = (True, \<lparr>ad_groups_count = 1, y360_groups_count = 3, created_count = 0,
               updated_count = 1, deleted_count = 1, errors_count = 0, skipped_count = 0\<rparr>)"
    by (simp add: sync_ad_groups_to_y360_def group_stats.truncate_def fixtures group_defs
        string_defs)
  have m: "sync_group_members (api_ok (\<lambda>_. [alice, bob])) False sales_files [sales]
             [sales_target] [alice, bob, carol]
     = Inr (True, \<lparr>y360_groups_processed = 1, ad_groups_found = 1, users_added_count = 1,
                   users_removed_count = 2, users_not_found_count = 0,
                   member_errors_count = 0, skipped_groups_count = 0\<rparr>)"
    by (simp add: member_stats.truncate_def fixtures member_defs string_defs)
  from dry_run_equivalence [OF h, of "[sales]" "[stale_target, orphan, foreign]" sales_files
      "[sales]" "[sales_target]" "[alice, bob, carol]"] h g m
  show ?thesis by simp
qed

text \<open>
  In either mode the mutating member calls of a run are those of its decisions: all of
  them in a live run, none in a dry run.
\<close>

lemma do_add_calls_inv:
  "filter mutating (member_calls st)
     = (if dry then [] else map member_call_of (member_decisions st)) \<Longrightarrow>
   filter mutating (member_calls (do_add a dry gid st x))
     = (if dry then [] else map member_call_of (member_decisions (do_add a dry gid st x)))"
  by (simp add: do_add_def Let_def split: prod.splits)

lemma do_remove_calls_inv:
  "filter mutating (member_calls st)
     = (if dry then [] else map member_call_of (member_decisions st)) \<Longrightarrow>
   filter mutating (member_calls (do_remove a dry gid st x))
     = (if dry then [] else map member_call_of (member_decisions (do_remove a dry gid st x)))"
  by (simp add: do_remove_def Let_def split: prod.splits)

lemma foldl_add_calls_inv:
  "filter mutating (member_calls st)
     = (if dry then [] else map member_call_of (member_decisions st)) \<Longrightarrow>
   filter mutating (member_calls (foldl (do_add a dry gid) st xs))
     = (if dry then []
        else map member_call_of (member_decisions (foldl (do_add a dry gid) st xs)))"
proof (induction xs arbitrary: st)
  case Nil
  then show ?case by simp
next
  case (Cons x xs)
  from Cons.IH [OF do_add_calls_inv [OF Cons.prems]] show ?case by simp
qed

lemma foldl_remove_calls_inv:
  "filter mutating (member_calls st)
     = (if dry then [] else map member_call_of (member_decisions st)) \<Longrightarrow>
   filter mutating (member_calls (foldl (do_remove a dry gid) st xs))
     = (if dry then []
        else map member_call_of (member_decisions (foldl (do_remove a dry gid) st xs)))"
proof (induction xs arbitrary: st)
  case Nil
  then show ?case by simp
next
  case (Cons x xs)
  from Cons.IH [OF do_remove_calls_inv [OF Cons.prems]] show ?case by simp
qed

lemma reconcile_group_calls_inv:
  assumes "filter mutating (member_calls st)
     = (if dry then [] else map member_call_of (member_decisions st))"
  shows "filter mutating (member_calls (reconcile_group a dry fs idx s gid ms st))
     = (if dry then []
        else map member_call_of (member_decisions (reconcile_group a dry fs idx s gid ms st)))"
proof (cases "y360_member_nicknames idx [] ms")
  case (Inl e)
  with assms show ?thesis by (simp add: reconcile_group_def)
next
  case (Inr mn)
  show ?thesis
  proof (cases "get_group_members_from_file fs s = []")
    case True
    with Inr assms show ?thesis by (simp add: reconcile_group_def)
  next
    case False
    let ?ad = "ad_nicknames_set (get_group_members_from_file fs s)"
    let ?st1 = "st\<lparr>users_not_found_count := users_not_found_count st
                       + users_not_found idx mn ?ad\<rparr>"
    from assms have "filter mutating (member_calls ?st1)
       = (if dry then [] else map member_call_of (member_decisions ?st1))"
      by simp
    from foldl_remove_calls_inv [OF foldl_add_calls_inv [OF this]] Inr False
    show ?thesis by (simp add: reconcile_group_def Let_def)
  qed
qed

lemma process_y360_group_calls_inv:
  assumes "filter mutating (member_calls st)
     = (if dry then [] else map member_call_of (member_decisions st))"
  shows "filter mutating (member_calls (process_y360_group a dry fs by_guid idx st g))
     = (if dry then []
        else map member_call_of
               (member_decisions (process_y360_group a dry fs by_guid idx st g)))"
proof -
  note rT = reconcile_group_calls_inv [where dry = True, simplified]
  note rF = reconcile_group_calls_inv [where dry = False, simplified]
  show ?thesis
    unfolding process_y360_group_def Let_def
    using assms
    by (auto split: sum.splits option.splits prod.splits intro!: rT rF)
qed

lemma member_calls_of_decisions:
  "filter mutating (member_calls (sync_group_members_run a dry fs ad ys us))
     = (if dry then []
        else map member_call_of (member_decisions (sync_group_members_run a dry fs ad ys us)))"
proof -
  have "\<And>st. filter mutating (member_calls st)
            = (if dry then [] else map member_call_of (member_decisions st)) \<Longrightarrow>
          filter mutating
            (member_calls (foldl (process_y360_group a dry fs (ad_groups_by_guid ad)
                                    (y360_users_by_nickname us)) st ys))
            = (if dry then []
               else map member_call_of
                      (member_decisions (foldl (process_y360_group a dry fs
                          (ad_groups_by_guid ad) (y360_users_by_nickname us)) st ys)))"
  proof (induction ys)
    case Nil
    then show ?case by simp
  next
    case (Cons y ys)
    from Cons.IH [OF process_y360_group_calls_inv [OF Cons.prems]] show ?case by simp
  qed
  note F = this
  have i: "filter mutating (member_calls init_mstate)
             = (if dry then [] else map member_call_of (member_decisions init_mstate))"
    by (simp add: init_mstate_def)
  from F [OF i] i show ?thesis
    unfolding sync_group_members_run_def Let_def by presburger
qed

section \<open>Idempotence of the group synchronisation\<close>

lemma fresh_id_bound: "g \<in> set gs \<Longrightarrow> y_id g = Some i \<Longrightarrow> i < fresh_id gs"
  unfolding fresh_id_def by (induction gs) auto

lemma fresh_id_fresh: "g \<in> set gs \<Longrightarrow> y_id g \<noteq> Some (fresh_id gs)"
  using fresh_id_bound by fastforce

lemma y_id_apply_patch [simp]: "y_id (apply_patch p g) = y_id g"
  by (simp add: apply_patch_def)

lemma y_externalId_apply_patch [simp]: "y_externalId (apply_patch p g) = y_externalId g"
  by (simp add: apply_patch_def)

lemma y_id_foldl_patch [simp]: "y_id (foldl (\<lambda>x p. apply_patch p x) g ps) = y_id g"
  by (induction ps arbitrary: g) simp_all

lemma y_externalId_foldl_patch [simp]:
  "y_externalId (foldl (\<lambda>x p. apply_patch p x) g ps) = y_externalId g"
  by (induction ps arbitrary: g) simp_all

lemma y_id_patched [simp]: "y_id (patched ds g) = y_id g"
  by (simp add: patched_def)

lemma y_externalId_patched [simp]: "y_externalId (patched ds g) = y_externalId g"
  by (simp add: patched_def)

lemma patches_for_snoc:
  "patches_for gid (ds @ [d]) = patches_for gid ds @
     (case d of Update g c \<Rightarrow> if y_id g = gid then [c] else [] | _ \<Rightarrow> [])"
  by (simp add: patches_for_def List.map_filter_def split: decision.splits)

lemma creates_snoc:
  "creates (ds @ [d]) = creates ds @ (case d of Create gd \<Rightarrow> [gd] | _ \<Rightarrow> [])"
  by (simp add: creates_def List.map_filter_def split: decision.splits)

lemma patched_snoc_Create [simp]: "patched (ds @ [Create gd]) g = patched ds g"
  by (simp add: patched_def patches_for_snoc)

lemma patched_snoc_Update:
  "patched (ds @ [Update g' c]) g =
     (if y_id g' = y_id g then apply_patch c (patched ds g) else patched ds g)"
  by (simp add: patched_def patches_for_snoc)

text \<open>The target after the creations and updates of a run.\<close>

lemma target_after_updates:
  assumes "\<forall>d \<in> set ds. case d of Create gd \<Rightarrow> True | Update g c \<Rightarrow> g \<in> set ys
                                   | Delete grp \<Rightarrow> False"
  shows "\<exists>ids. length ids = length (creates ds) \<and>
               (\<forall>i \<in> set ids. Some i \<notin> y_id ` set ys) \<and>
               foldl service_step ys (map call_of ds)
                 = map (patched ds) ys @ map2 created_group ids (creates ds)"
  using assms
proof (induction ds rule: rev_induct)
  case Nil
  show ?case by (simp add: creates_def patched_def patches_for_def)
next
  case (snoc d ds)
  then obtain ids where ids: "length ids = length (creates ds)"
    "\<forall>i \<in> set ids. Some i \<notin> y_id ` set ys"
    "foldl service_step ys (map call_of ds)
       = map (patched ds) ys @ map2 created_group ids (creates ds)"
    by auto
  let ?T = "foldl service_step ys (map call_of ds)"
  show ?case
  proof (cases d)
    case (Create gd)
    have "Some (fresh_id ?T) \<notin> y_id ` set ys"
    proof
      assume "Some (fresh_id ?T) \<in> y_id ` set ys"
      then obtain g where g: "g \<in> set ys" "y_id g = Some (fresh_id ?T)" by force
      then have "patched ds g \<in> set ?T" "y_id (patched ds g) = Some (fresh_id ?T)"
        by (simp_all add: ids(3))
      with fresh_id_fresh show False by blast
    qed
    with ids Create show ?thesis
      by (intro exI [of _ "ids @ [fresh_id ?T]"]) (simp add: creates_snoc)
  next
    case (Update g c)
    with snoc.prems have g: "g \<in> set ys" by simp
    have c: "map (\<lambda>x. if y_id x = y_id g then apply_patch c x else x)
                 (map2 created_group ids (creates ds)) = map2 created_group ids (creates ds)"
    proof (rule map_idI)
      fix x assume "x \<in> set (map2 created_group ids (creates ds))"
      then obtain i gd where z: "(i, gd) \<in> set (zip ids (creates ds))"
        and x: "x = created_group i gd"
        by auto
      from z have "i \<in> set ids" by (rule set_zip_leftD)
      with ids(2) g x have "y_id x \<noteq> y_id g" by (auto simp: created_group_def)
      then show "(if y_id x = y_id g then apply_patch c x else x) = x" by simp
    qed
    have p: "map (\<lambda>x. if y_id x = y_id g then apply_patch c x else x) (map (patched ds) ys)
               = map (patched (ds @ [d])) ys"
      by (auto simp: Update patched_snoc_Update)
    let ?F = "\<lambda>x. if y_id x = y_id g then apply_patch c x else x"
    have "foldl service_step ys (map call_of (ds @ [d])) = map ?F ?T"
      by (simp add: Update)
    also have "\<dots> = map ?F (map (patched ds) ys)
                      @ map ?F (map2 created_group ids (creates ds))"
      by (simp only: ids(3) map_append)
    also have "\<dots> = map (patched (ds @ [d])) ys @ map2 created_group ids (creates ds)"
      by (simp only: p c)
    finally have T': "foldl service_step ys (map call_of (ds @ [d]))
        = map (patched (ds @ [d])) ys @ map2 created_group ids (creates ds)" .
    have cr: "creates (ds @ [d]) = creates ds" by (simp add: creates_snoc Update)
    show ?thesis unfolding cr using ids(1,2) T' by blast
  next
    case (Delete grp)
    with snoc.prems show ?thesis by simp
  qed
qed

lemma target_after_deletes:
  "foldl service_step gs (map DeleteGroup dids) = filter (\<lambda>g. y_id g \<notin> set dids) gs"
proof (induction dids arbitrary: gs)
  case Nil
  show ?case by simp
next
  case (Cons d dids)
  show ?case by (simp add: Cons.IH)
qed


lemma idx_snoc:
  "y360_groups_by_external_id (xs @ [g]) k =
     (if y_externalId g = Some k \<and> k \<noteq> [] then Some g else y360_groups_by_external_id xs k)"
  by (cases "y_externalId g") (auto simp: y360_groups_by_external_id_def get_default_def Let_def)

lemma idx_Nil [simp]: "y360_groups_by_external_id [] k = None"
  by (simp add: y360_groups_by_external_id_def)

lemma idx_append:
  "y360_groups_by_external_id (xs @ zs) k =
     (case y360_groups_by_external_id zs k of
        Some g \<Rightarrow> Some g
      | None \<Rightarrow> y360_groups_by_external_id xs k)"
proof (induction zs rule: rev_induct)
  case Nil
  show ?case by simp
next
  case (snoc z zs)
  have "y360_groups_by_external_id (xs @ zs @ [z]) k
          = y360_groups_by_external_id ((xs @ zs) @ [z]) k" by simp
  also have "\<dots> = (if y_externalId z = Some k \<and> k \<noteq> [] then Some z
                    else y360_groups_by_external_id (xs @ zs) k)"
    by (rule idx_snoc)
  finally show ?case by (simp add: snoc.IH idx_snoc)
qed

lemma idx_None_iff:
  "y360_groups_by_external_id xs k = None \<longleftrightarrow>
     k = [] \<or> (\<forall>g \<in> set xs. y_externalId g \<noteq> Some k)"
  by (induction xs rule: rev_induct) (auto simp: idx_snoc)

lemma idx_map:
  assumes "\<And>g. y_externalId (f g) = y_externalId g"
  shows "y360_groups_by_external_id (map f xs) k = map_option f (y360_groups_by_external_id xs k)"
  by (induction xs rule: rev_induct) (simp_all add: idx_snoc assms)

lemma idx_filter:
  "y360_groups_by_external_id xs k = Some g \<Longrightarrow> keep g \<Longrightarrow>
   y360_groups_by_external_id (filter keep xs) k = Some g"
  by (induction xs rule: rev_induct) (auto simp: idx_snoc split: if_splits)

lemma map_of_group_data:
  "map_of (group_data dn ext m d) ''name'' = Some dn"
  "map_of (group_data dn ext m d) ''externalId'' = Some ext"
  "map_of (group_data dn ext m d) ''label'' = (if m \<noteq> [] \<and> CHR ''@'' \<in> set m
                                              then Some (split_first CHR ''@'' m) else None)"
  "map_of (group_data dn ext m d) ''description'' = (if truthy d then d else None)"
  by (auto simp: group_data_def Let_def AList.update_conv' truthy_def split: option.splits)

lemma create_in_sync:
  "changes_needed dn (expected_label m) (expected_description d)
     (created_group i (group_data dn ext m d)) = []"
  by (auto simp: changes_needed_def created_group_def map_of_group_data Let_def
      expected_label_def expected_description_def get_default_def truthy_def
      split: option.splits)


lemma patch_converges:
  "changes_needed dn el ed (apply_patch (changes_needed dn el ed g) g) = []"
proof -
  obtain l where l: "(case el of None \<Rightarrow> None | Some x \<Rightarrow> if x \<noteq> [] then Some x else None) = l"
    by simp
  show ?thesis
  proof (cases l)
    case None
    with l have "el = None \<or> el = Some []" by (auto split: option.splits if_splits)
    then show ?thesis
      by (cases "y_name g"; cases "y_description g")
         (auto simp: changes_needed_def apply_patch_def Let_def get_default_def
            AList.update_conv')
  next
    case (Some x)
    with l have "el = Some x" "x \<noteq> []" by (auto split: option.splits if_splits)
    then show ?thesis
      by (cases "y_name g"; cases "y_description g"; cases "y_label g")
         (auto simp: changes_needed_def apply_patch_def Let_def get_default_def
            AList.update_conv')
  qed
qed

lemma map_filter_all_None: "(\<And>x. x \<in> set xs \<Longrightarrow> h x = None) \<Longrightarrow> List.map_filter h xs = []"
  by (induction xs) simp_all

lemma map_filter_unique:
  assumes "distinct (map f (filter P xs))" and "s \<in> set xs" and "P s"
    and "\<And>x. x \<in> set xs \<Longrightarrow> h x \<noteq> None \<Longrightarrow> P x \<and> f x = f s"
  shows "List.map_filter h xs = (case h s of None \<Rightarrow> [] | Some c \<Rightarrow> [c])"
  using assms
proof (induction xs)
  case Nil
  then show ?case by simp
next
  case (Cons x xs)
  show ?case
  proof (cases "s = x")
    case True
    have "List.map_filter h xs = []"
    proof (rule map_filter_all_None)
      fix y assume y: "y \<in> set xs"
      show "h y = None"
      proof (rule ccontr)
        assume "h y \<noteq> None"
        with Cons.prems(4) [of y] y have py: "P y" and fy: "f y = f x" using True by auto
        from y py have "y \<in> set (filter P xs)" by simp
        then have "f y \<in> f ` set (filter P xs)" by (rule imageI)
        with fy have "f x \<in> set (map f (filter P xs))" by simp
        with Cons.prems(1,3) True show False by simp
      qed
    qed
    with True show ?thesis by (simp split: option.splits)
  next
    case False
    with Cons.prems(2) have s: "s \<in> set xs" by simp
    have hx: "h x = None"
    proof (rule ccontr)
      assume "h x \<noteq> None"
      with Cons.prems(4) [of x] have "P x" "f x = f s" by auto
      moreover from s Cons.prems(3) have "s \<in> set (filter P xs)" by simp
      then have "f s \<in> f ` set (filter P xs)" by (rule imageI)
      then have "f s \<in> set (map f (filter P xs))" by simp
      ultimately show False using Cons.prems(1) by simp
    qed
    from Cons.prems(1) have "distinct (map f (filter P xs))" by (simp split: if_splits)
    from Cons.IH [OF this s Cons.prems(3)] Cons.prems(4) hx show ?thesis by simp
  qed
qed

lemma map_filter_compose:
  "List.map_filter h (List.map_filter f xs)
     = List.map_filter (\<lambda>x. case f x of None \<Rightarrow> None | Some y \<Rightarrow> h y) xs"
  by (induction xs) (simp_all split: option.splits)

lemma zip_right_ex:
  "length xs = length zs \<Longrightarrow> z \<in> set zs \<Longrightarrow> \<exists>x. (x, z) \<in> set (zip xs zs)"
  by (metis in_set_impl_in_set_zip2)

lemma set_creates: "gd \<in> set (creates ds) \<longleftrightarrow> Create gd \<in> set ds"
proof
  assume "gd \<in> set (creates ds)"
  then obtain d where d: "d \<in> set ds"
    "(case d of Create gd \<Rightarrow> Some gd | _ \<Rightarrow> None) = Some gd"
    by (auto simp: creates_def set_map_filter)
  from d(2) have "d = Create gd" by (cases d) simp_all
  with d(1) show "Create gd \<in> set ds" by simp
next
  assume "Create gd \<in> set ds"
  then show "gd \<in> set (creates ds)"
    by (force simp: creates_def set_map_filter)
qed

lemma ad_decision_Create:
  "ad_decision idx s = Some (Create gd) \<Longrightarrow>
     \<exists>guid dn m. objectGUID s = Some guid \<and> guid \<noteq> [] \<and> displayName s = Some dn \<and>
        mail s = Some m \<and> idx (''DDG;'' @ guid) = None \<and>
        gd = group_data dn (''DDG;'' @ guid) m (description s)"
  by (auto simp: ad_decision_def Let_def truthy_def get_default_def
      split: if_splits option.splits)

lemma ad_decision_invalid:
  "\<not> (truthy (objectGUID s) \<and> truthy (displayName s) \<and> truthy (mail s)) \<Longrightarrow>
   ad_decision idx s = None"
  by (auto simp: ad_decision_def)

lemma ad_decision_valid:
  assumes "objectGUID s = Some guid" "guid \<noteq> []" "displayName s = Some dn" "dn \<noteq> []"
    "mail s = Some m" "m \<noteq> []"
  shows "ad_decision idx s =
     (case idx (''DDG;'' @ guid) of
        Some g \<Rightarrow>
          if changes_needed dn (expected_label m) (expected_description (description s)) g \<noteq> []
          then Some (Update g (changes_needed dn (expected_label m)
                                 (expected_description (description s)) g))
          else None
      | None \<Rightarrow> Some (Create (group_data dn (''DDG;'' @ guid) m (description s))))"
  using assms
  by (simp add: ad_decision_def Let_def truthy_def get_default_def split: option.splits)

lemma valid_cases:
  assumes "truthy (objectGUID s) \<and> truthy (displayName s) \<and> truthy (mail s)"
  obtains guid dn m where "objectGUID s = Some guid" "guid \<noteq> []" "displayName s = Some dn"
    "dn \<noteq> []" "mail s = Some m" "m \<noteq> []"
  using assms by (auto simp: truthy_def split: option.splits)


lemma same_guid_same_group:
  assumes "distinct (map objectGUID (filter (\<lambda>s. truthy (objectGUID s)) ad))"
    and "x \<in> set ad" "s \<in> set ad" "objectGUID x = Some guid" "objectGUID s = Some guid"
    "guid \<noteq> []"
  shows "x = s"
proof -
  let ?S = "set (filter (\<lambda>s. truthy (objectGUID s)) ad)"
  from assms(1) have inj: "inj_on objectGUID ?S"
    by (simp only: distinct_map)
  from assms have x: "x \<in> ?S" and s: "s \<in> ?S"
    by (simp_all add: truthy_def)
  have "objectGUID x = objectGUID s" using assms(4,5) by simp
  from inj_onD [OF inj this x s] show ?thesis .
qed

lemma created_props:
  assumes "c \<in> set (map2 created_group ids (creates (List.map_filter (ad_decision idx) ad)))"
  shows "\<exists>i x guid dn m. i \<in> set ids \<and> x \<in> set ad \<and> objectGUID x = Some guid \<and> guid \<noteq> [] \<and>
           displayName x = Some dn \<and> mail x = Some m \<and> idx (''DDG;'' @ guid) = None \<and>
           c = created_group i (group_data dn (''DDG;'' @ guid) m (description x))"
proof -
  from assms obtain i gd
    where z: "(i, gd) \<in> set (zip ids (creates (List.map_filter (ad_decision idx) ad)))"
      and c: "c = created_group i gd"
    by auto
  from z have i: "i \<in> set ids" by (rule set_zip_leftD)
  from z have "gd \<in> set (creates (List.map_filter (ad_decision idx) ad))"
    by (rule set_zip_rightD)
  then have "Create gd \<in> set (List.map_filter (ad_decision idx) ad)"
    by (simp add: set_creates)
  then obtain x where x: "x \<in> set ad" "ad_decision idx x = Some (Create gd)"
    by (auto simp: set_map_filter)
  from ad_decision_Create [OF x(2)] i x(1) c show ?thesis by blast
qed

lemma delete_ids_from_target:
  "d_id ` set (groups_to_delete guids ys) \<subseteq> y_id ` set ys"
  by (auto simp: set_groups_to_delete delete_candidate_Some)

lemma first_run_decisions_wf:
  "\<forall>d \<in> set (List.map_filter (ad_decision (y360_groups_by_external_id ys)) ad).
     case d of Create gd \<Rightarrow> True | Update g c \<Rightarrow> g \<in> set ys | Delete grp \<Rightarrow> False"
proof
  fix d assume "d \<in> set (List.map_filter (ad_decision (y360_groups_by_external_id ys)) ad)"
  then obtain s where s: "ad_decision (y360_groups_by_external_id ys) s = Some d"
    by (auto simp: set_map_filter)
  show "case d of Create gd \<Rightarrow> True | Update g c \<Rightarrow> g \<in> set ys | Delete grp \<Rightarrow> False"
  proof (cases d)
    case (Create gd)
    then show ?thesis by simp
  next
    case (Update g c)
    with ad_decision_Update s show ?thesis by auto
  next
    case (Delete grp)
    with ad_decision_not_Delete s show ?thesis by auto
  qed
qed

lemma target_after_run:
  assumes "ad \<noteq> []"
  shows "\<exists>ids. length ids
                 = length (creates (List.map_filter (ad_decision (y360_groups_by_external_id ys)) ad)) \<and>
           (\<forall>i \<in> set ids. Some i \<notin> y_id ` set ys) \<and>
           foldl service_step ys (calls (sync_ad_groups_run a False ad ys))
             = filter (\<lambda>g. y_id g \<notin> d_id ` set (groups_to_delete (ad_object_guids ad) ys))
                 (map (patched (List.map_filter (ad_decision (y360_groups_by_external_id ys)) ad)) ys
                  @ map2 created_group ids
                      (creates (List.map_filter (ad_decision (y360_groups_by_external_id ys)) ad)))"
proof -
  let ?D = "List.map_filter (ad_decision (y360_groups_by_external_id ys)) ad"
  let ?dels = "groups_to_delete (ad_object_guids ad) ys"
  from target_after_updates [OF first_run_decisions_wf, of ys ad]
  obtain ids where ids: "length ids = length (creates ?D)"
    "\<forall>i \<in> set ids. Some i \<notin> y_id ` set ys"
    "foldl service_step ys (map call_of ?D)
       = map (patched ?D) ys @ map2 created_group ids (creates ?D)"
    by blast
  have "calls (sync_ad_groups_run a False ad ys)
          = map call_of ?D @ map DeleteGroup (map d_id ?dels)"
    using assms by (simp add: run_calls run_decisions comp_def)
  then have "foldl service_step ys (calls (sync_ad_groups_run a False ad ys))
          = filter (\<lambda>g. y_id g \<notin> set (map d_id ?dels))
              (map (patched ?D) ys @ map2 created_group ids (creates ?D))"
    by (simp only: foldl_append ids(3) target_after_deletes)
  with ids(1,2) show ?thesis by (intro exI [of _ ids]) simp
qed

lemma resync_no_orphan:
  assumes T: "ys' = filter (\<lambda>g. y_id g \<notin> d_id ` set (groups_to_delete (ad_object_guids ad) ys))
                 (map (patched D) ys
                  @ map2 created_group ids
                      (creates (List.map_filter (ad_decision (y360_groups_by_external_id ys)) ad)))"
  shows "groups_to_delete (ad_object_guids ad) ys' = []"
  unfolding groups_to_delete_def
proof (rule map_filter_all_None)
  fix g' assume g': "g' \<in> set ys'"
  let ?guids = "ad_object_guids ad"
  show "delete_candidate ?guids g' = None"
  proof (rule ccontr)
    assume "delete_candidate ?guids g' \<noteq> None"
    then obtain d where "delete_candidate ?guids g' = Some d" by auto
    then obtain t where t: "y_externalId g' = Some (''DDG;'' @ t)" "t \<notin> set ?guids"
      unfolding delete_candidate_Some by blast
    from g' T have keep: "y_id g' \<notin> d_id ` set (groups_to_delete ?guids ys)"
      and mem: "g' \<in> patched D ` set ys \<or>
                g' \<in> set (map2 created_group ids
                      (creates (List.map_filter (ad_decision (y360_groups_by_external_id ys)) ad)))"
      by auto
    from mem show False
    proof
      assume "g' \<in> patched D ` set ys"
      then obtain g0 where g0: "g0 \<in> set ys" "g' = patched D g0" by auto
      with t have "y_externalId g0 = Some (''DDG;'' @ t)" by simp
      with t(2) have "delete_candidate ?guids g0
          = Some \<lparr>d_id = y_id g0, d_name = get_default (y_name g0) None, d_externalId = ''DDG;'' @ t,
                  d_objectGUID = t\<rparr>"
        unfolding delete_candidate_Some by blast
      with g0(1) have "\<lparr>d_id = y_id g0, d_name = get_default (y_name g0) None, d_externalId = ''DDG;'' @ t,
                  d_objectGUID = t\<rparr> \<in> set (groups_to_delete ?guids ys)"
        unfolding set_groups_to_delete by blast
      then have "y_id g0 \<in> d_id ` set (groups_to_delete ?guids ys)" by force
      with keep g0(2) show False by simp
    next
      assume "g' \<in> set (map2 created_group ids
                      (creates (List.map_filter (ad_decision (y360_groups_by_external_id ys)) ad)))"
      from created_props [OF this] obtain i x guid dn m where
        x: "x \<in> set ad" "objectGUID x = Some guid" "guid \<noteq> []"
        "g' = created_group i (group_data dn (''DDG;'' @ guid) m (description x))"
        by blast
      from x(4) have "y_externalId g' = Some (''DDG;'' @ guid)"
        by (simp add: created_group_def map_of_group_data)
      with t(1) have "t = guid" by simp
      moreover from x(1-3) have "guid \<in> set ?guids" by (auto simp: set_ad_object_guids)
      ultimately show False using t(2) by simp
    qed
  qed
qed


lemma patches_of_matched:
  assumes dg: "distinct (map objectGUID (filter (\<lambda>s. truthy (objectGUID s)) ad))"
    and di: "distinct (map y_id ys)"
    and s: "s \<in> set ad" "objectGUID s = Some guid" "guid \<noteq> []" "displayName s = Some dn"
      "dn \<noteq> []" "mail s = Some m" "m \<noteq> []"
    and g: "y360_groups_by_external_id ys (''DDG;'' @ guid) = Some g"
  shows "patches_for (y_id g) (List.map_filter (ad_decision (y360_groups_by_external_id ys)) ad)
           = (if changes_needed dn (expected_label m) (expected_description (description s)) g \<noteq> []
              then [changes_needed dn (expected_label m) (expected_description (description s)) g]
              else [])"
proof -
  let ?idx = "y360_groups_by_external_id ys"
  let ?sel = "\<lambda>d. case d of Update g' c \<Rightarrow> if y_id g' = y_id g then Some c else None
                        | _ \<Rightarrow> None"
  let ?h = "\<lambda>x. case ad_decision ?idx x of None \<Rightarrow> None | Some d \<Rightarrow> ?sel d"
  from index_lookup [OF g] have gin: "g \<in> set ys" and gext: "y_externalId g = Some (''DDG;'' @ guid)"
    by auto
  have only: "\<And>x. x \<in> set ad \<Longrightarrow> ?h x \<noteq> None \<Longrightarrow>
                  truthy (objectGUID x) \<and> objectGUID x = objectGUID s"
  proof -
    fix x assume x: "x \<in> set ad" "?h x \<noteq> None"
    then obtain d where d: "ad_decision ?idx x = Some d" "?sel d \<noteq> None"
      by (auto split: option.splits)
    from d(2) obtain g' c where u: "d = Update g' c" "y_id g' = y_id g"
      by (cases d) (auto split: if_splits)
    from ad_decision_Update [OF d(1) [unfolded u(1)]] obtain guid' where
      g': "g' \<in> set ys" "guid' \<noteq> []" "objectGUID x = Some guid'"
      "y_externalId g' = Some (''DDG;'' @ guid')"
      by blast
    from di g'(1) gin u(2) have "g' = g" by (meson distinct_map inj_onD)
    with g'(4) gext have "guid' = guid" by simp
    with g'(2,3) s(2) show "truthy (objectGUID x) \<and> objectGUID x = objectGUID s"
      by (simp add: truthy_def)
  qed
  have ps: "truthy (objectGUID s)" using s(2,3) by (simp add: truthy_def)
  have ds: "ad_decision ?idx s =
      (if changes_needed dn (expected_label m) (expected_description (description s)) g \<noteq> []
       then Some (Update g (changes_needed dn (expected_label m)
                              (expected_description (description s)) g))
       else None)"
    using g by (simp add: ad_decision_valid [OF s(2-7)])
  have "patches_for (y_id g) (List.map_filter (ad_decision ?idx) ad) = List.map_filter ?h ad"
    by (simp only: patches_for_def map_filter_compose)
  also have "\<dots> = (case ?h s of None \<Rightarrow> [] | Some c \<Rightarrow> [c])"
    by (rule map_filter_unique [where f = objectGUID and P = "\<lambda>s. truthy (objectGUID s)",
          OF dg s(1) ps only])
  also have "\<dots> = (if changes_needed dn (expected_label m) (expected_description (description s)) g \<noteq> []
              then [changes_needed dn (expected_label m) (expected_description (description s)) g]
              else [])"
    by (simp add: ds)
  finally show ?thesis .
qed


lemma resync_in_sync:
  assumes dg: "distinct (map objectGUID (filter (\<lambda>s. truthy (objectGUID s)) ad))"
    and di: "distinct (map y_id ys)"
    and D: "D = List.map_filter (ad_decision (y360_groups_by_external_id ys)) ad"
    and len: "length ids = length (creates D)"
    and fresh: "\<forall>i \<in> set ids. Some i \<notin> y_id ` set ys"
    and T: "ys' = filter (\<lambda>g. y_id g \<notin> d_id ` set (groups_to_delete (ad_object_guids ad) ys))
                 (map (patched D) ys @ map2 created_group ids (creates D))"
    and s: "s \<in> set ad"
  shows "ad_decision (y360_groups_by_external_id ys') s = None"
proof (cases "truthy (objectGUID s) \<and> truthy (displayName s) \<and> truthy (mail s)")
  case False
  then show ?thesis by (rule ad_decision_invalid)
next
  case True
  then obtain guid dn m where v: "objectGUID s = Some guid" "guid \<noteq> []"
    "displayName s = Some dn" "dn \<noteq> []" "mail s = Some m" "m \<noteq> []"
    by (rule valid_cases)
  let ?idx = "y360_groups_by_external_id ys"
  let ?k = "''DDG;'' @ guid"
  let ?keep = "\<lambda>g. y_id g \<notin> d_id ` set (groups_to_delete (ad_object_guids ad) ys)"
  let ?C = "map2 created_group ids (creates D)"
  let ?ch = "changes_needed dn (expected_label m) (expected_description (description s))"
  have k: "?k \<noteq> []" by simp
  have T': "ys' = filter ?keep (map (patched D) ys) @ filter ?keep ?C"
    using T by simp
  have created: "\<And>c. c \<in> set ?C \<Longrightarrow>
      \<exists>i x guid' dn' m'. i \<in> set ids \<and> x \<in> set ad \<and> objectGUID x = Some guid' \<and> guid' \<noteq> [] \<and>
           displayName x = Some dn' \<and> mail x = Some m' \<and> ?idx (''DDG;'' @ guid') = None \<and>
           c = created_group i (group_data dn' (''DDG;'' @ guid') m' (description x))"
    unfolding D by (rule created_props)
  have goal: "\<And>g'. y360_groups_by_external_id ys' ?k = Some g' \<Longrightarrow> ?ch g' = [] \<Longrightarrow> ?thesis"
    using k by (simp add: ad_decision_valid [OF v])
  show ?thesis
  proof (cases "?idx ?k")
    case None
    then have ds: "ad_decision ?idx s = Some (Create (group_data dn ?k m (description s)))"
      by (simp add: ad_decision_valid [OF v])
    with s have "Create (group_data dn ?k m (description s)) \<in> set D"
      unfolding D set_map_filter by blast
    then have "group_data dn ?k m (description s) \<in> set (creates D)"
      by (simp only: set_creates)
    from zip_right_ex [OF len this] obtain i
      where z: "(i, group_data dn ?k m (description s)) \<in> set (zip ids (creates D))"
      by blast
    let ?c = "created_group i (group_data dn ?k m (description s))"
    from z have cin: "?c \<in> set ?C" by force
    from z have "i \<in> set ids" by (rule set_zip_leftD)
    with fresh have "Some i \<notin> y_id ` set ys" by blast
    with delete_ids_from_target [of "ad_object_guids ad" ys] have "?keep ?c"
      by (auto simp: created_group_def)
    with cin have "?c \<in> set ys'" by (simp add: T')
    moreover have "y_externalId ?c = Some ?k"
      by (simp add: created_group_def map_of_group_data)
    ultimately have "y360_groups_by_external_id ys' ?k \<noteq> None"
      unfolding idx_None_iff using k by blast
    then obtain g' where g': "y360_groups_by_external_id ys' ?k = Some g'" by auto
    from index_lookup [OF g'] have g'in: "g' \<in> set ys'" and g'ext: "y_externalId g' = Some ?k"
      by auto
    from g'in T' have "g' \<in> patched D ` set ys \<or> g' \<in> set ?C" by auto
    then have "g' \<in> set ?C"
    proof
      assume "g' \<in> patched D ` set ys"
      then obtain g0 where "g0 \<in> set ys" "g' = patched D g0" by auto
      with g'ext have "g0 \<in> set ys" "y_externalId g0 = Some ?k" by simp_all
      with None k show ?thesis unfolding idx_None_iff by blast
    qed
    from created [OF this] obtain i' x guid' dn' m' where
      x: "x \<in> set ad" "objectGUID x = Some guid'" "guid' \<noteq> []" "displayName x = Some dn'"
      "mail x = Some m'"
      "g' = created_group i' (group_data dn' (''DDG;'' @ guid') m' (description x))"
      by blast
    from x(6) have "y_externalId g' = Some (''DDG;'' @ guid')"
      by (simp add: created_group_def map_of_group_data)
    with g'ext have "guid' = guid" by simp
    with same_guid_same_group [OF dg x(1) s _ v(1) v(2)] x(2) have "x = s" by simp
    with x(4,5,6) v \<open>guid' = guid\<close>
    have "g' = created_group i' (group_data dn ?k m (description s))" by simp
    then have "?ch g' = []" by (simp only: create_in_sync)
    with g' show ?thesis by (rule goal)
  next
    case (Some g)
    from index_lookup [OF Some] have gin: "g \<in> set ys" and gext: "y_externalId g = Some ?k"
      by auto
    have noC: "y360_groups_by_external_id (filter ?keep ?C) ?k = None"
    proof (rule ccontr)
      assume "y360_groups_by_external_id (filter ?keep ?C) ?k \<noteq> None"
      then obtain c where "y360_groups_by_external_id (filter ?keep ?C) ?k = Some c" by auto
      from index_lookup [OF this] have c: "c \<in> set ?C" "y_externalId c = Some ?k" by auto
      from created [OF c(1)] obtain i' x guid' dn' m' where
        x: "?idx (''DDG;'' @ guid') = None"
        "c = created_group i' (group_data dn' (''DDG;'' @ guid') m' (description x))"
        "x \<in> set ad"
        by blast
      from x(2) have "y_externalId c = Some (''DDG;'' @ guid')"
        by (simp add: created_group_def map_of_group_data)
      with c(2) have "guid' = guid" by simp
      with x(1) Some show False by simp
    qed
    have keep: "?keep (patched D g)"
    proof -
      have "y_id g \<notin> d_id ` set (groups_to_delete (ad_object_guids ad) ys)"
      proof
        assume "y_id g \<in> d_id ` set (groups_to_delete (ad_object_guids ad) ys)"
        then obtain d where d: "d \<in> set (groups_to_delete (ad_object_guids ad) ys)"
          "d_id d = y_id g" by auto
        from d(1) obtain g0 where g0: "g0 \<in> set ys"
          "delete_candidate (ad_object_guids ad) g0 = Some d"
          unfolding set_groups_to_delete by blast
        from g0(2) obtain t where t: "y_externalId g0 = Some (''DDG;'' @ t)"
          "t \<notin> set (ad_object_guids ad)" "d_id d = y_id g0"
          unfolding delete_candidate_Some by auto
        from di g0(1) gin t(3) d(2) have "g0 = g" by (metis distinct_map inj_onD)
        with t(1) gext have "t = guid" by simp
        moreover from s v(1,2) have "guid \<in> set (ad_object_guids ad)"
          by (auto simp: set_ad_object_guids)
        ultimately show False using t(2) by simp
      qed
      then show ?thesis by simp
    qed
    have "y360_groups_by_external_id (map (patched D) ys) ?k = Some (patched D g)"
      using Some by (simp only: idx_map [of "patched D", OF y_externalId_patched] option.map)
    then have "y360_groups_by_external_id (filter ?keep (map (patched D) ys)) ?k
                 = Some (patched D g)"
      using keep by (rule idx_filter)
    with noC have g': "y360_groups_by_external_id ys' ?k = Some (patched D g)"
      by (simp only: T' idx_append option.case)
    have "patches_for (y_id g) D = (if ?ch g \<noteq> [] then [?ch g] else [])"
      unfolding D by (rule patches_of_matched [OF dg di s v Some])
    then have "patched D g = (if ?ch g \<noteq> [] then apply_patch (?ch g) g else g)"
      by (simp add: patched_def)
    then have "?ch (patched D g) = []"
      by (simp add: patch_converges split: if_splits)
    with g' show ?thesis by (rule goal)
  qed
qed


lemma process_ad_group_None:
  "ad_decision idx s = None \<Longrightarrow>
   process_ad_group a dry idx st s = st \<or>
   process_ad_group a dry idx st s = st\<lparr>skipped_count := skipped_count st + 1\<rparr>"
  by (auto simp: process_ad_group_def ad_decision_def truthy_def get_default_def Let_def
      split: option.splits if_splits)

lemma foldl_process_None:
  "(\<And>s. s \<in> set ad \<Longrightarrow> ad_decision idx s = None) \<Longrightarrow>
   created_count (foldl (process_ad_group a dry idx) st ad) = created_count st \<and>
   updated_count (foldl (process_ad_group a dry idx) st ad) = updated_count st \<and>
   deleted_count (foldl (process_ad_group a dry idx) st ad) = deleted_count st \<and>
   errors_count (foldl (process_ad_group a dry idx) st ad) = errors_count st \<and>
   decisions (foldl (process_ad_group a dry idx) st ad) = decisions st \<and>
   calls (foldl (process_ad_group a dry idx) st ad) = calls st"
proof (induction ad arbitrary: st)
  case Nil
  show ?case by simp
next
  case (Cons x ad)
  from Cons.prems have "ad_decision idx x = None" by simp
  from process_ad_group_None [OF this, of a dry st]
  show ?case
  proof
    assume "process_ad_group a dry idx st x = st"
    with Cons.IH [of st] Cons.prems show ?thesis by simp
  next
    assume "process_ad_group a dry idx st x = st\<lparr>skipped_count := skipped_count st + 1\<rparr>"
    with Cons.IH [of "st\<lparr>skipped_count := skipped_count st + 1\<rparr>"] Cons.prems
    show ?thesis by simp
  qed
qed

lemma run_without_decisions:
  assumes "\<And>s. s \<in> set ad \<Longrightarrow> ad_decision (y360_groups_by_external_id ys) s = None"
    and "groups_to_delete (ad_object_guids ad) ys = []"
  shows "created_count (sync_ad_groups_run a dry ad ys) = 0 \<and>
         updated_count (sync_ad_groups_run a dry ad ys) = 0 \<and>
         deleted_count (sync_ad_groups_run a dry ad ys) = 0 \<and>
         errors_count (sync_ad_groups_run a dry ad ys) = 0 \<and>
         decisions (sync_ad_groups_run a dry ad ys) = [] \<and>
         calls (sync_ad_groups_run a dry ad ys) = []"
proof (cases "ad = []")
  case True
  then show ?thesis by (simp add: sync_ad_groups_run_def init_gstate_def)
next
  case False
  from foldl_process_None [of ad "y360_groups_by_external_id ys" a dry
      "init_gstate\<lparr>ad_groups_count := length ad, y360_groups_count := length ys\<rparr>"] assms(1)
  show ?thesis
    using False assms(2) by (simp add: sync_ad_groups_run_def Let_def init_gstate_def)
qed

lemma returned_stats:
  "fst (sync_ad_groups_to_y360 a dry ad ys) = (errors_count (sync_ad_groups_run a dry ad ys) = 0)"
  "created_count (snd (sync_ad_groups_to_y360 a dry ad ys))
     = created_count (sync_ad_groups_run a dry ad ys)"
  "updated_count (snd (sync_ad_groups_to_y360 a dry ad ys))
     = updated_count (sync_ad_groups_run a dry ad ys)"
  "deleted_count (snd (sync_ad_groups_to_y360 a dry ad ys))
     = deleted_count (sync_ad_groups_run a dry ad ys)"
  by (simp_all add: sync_ad_groups_to_y360_def Let_def group_stats.truncate_def)

text \<open>
  Claim C4.  Let the source groups have distinct non-empty \<^verbatim>\<open>objectGUID\<close>s and the
  target groups distinct ids.  Run the group synchronisation live, let the target
  service carry out the calls of that run, and take the groups of the service as the
  new target snapshot.  A second run over the same source groups, live or dry and
  whatever the remote layer answers, succeeds with \<^verbatim>\<open>created_count\<close>,
  \<^verbatim>\<open>updated_count\<close> and \<^verbatim>\<open>deleted_count\<close> zero; it takes no decision and issues no
  call.
\<close>

theorem group_sync_idempotent:
  assumes "distinct (map objectGUID (filter (\<lambda>s. truthy (objectGUID s)) ad))"
    and "distinct (map y_id ys)"
  shows "fst (sync_ad_groups_to_y360 a' dry ad
           (foldl service_step ys (calls (sync_ad_groups_run a False ad ys)))) \<and>
         created_count (snd (sync_ad_groups_to_y360 a' dry ad
           (foldl service_step ys (calls (sync_ad_groups_run a False ad ys))))) = 0 \<and>
         updated_count (snd (sync_ad_groups_to_y360 a' dry ad
           (foldl service_step ys (calls (sync_ad_groups_run a False ad ys))))) = 0 \<and>
         deleted_count (snd (sync_ad_groups_to_y360 a' dry ad
           (foldl service_step ys (calls (sync_ad_groups_run a False ad ys))))) = 0 \<and>
         decisions (sync_ad_groups_run a' dry ad
           (foldl service_step ys (calls (sync_ad_groups_run a False ad ys)))) = [] \<and>
         calls (sync_ad_groups_run a' dry ad
           (foldl service_step ys (calls (sync_ad_groups_run a False ad ys)))) = []"
proof -
  let ?D = "List.map_filter (ad_decision (y360_groups_by_external_id ys)) ad"
  let ?ys' = "foldl service_step ys (calls (sync_ad_groups_run a False ad ys))"
  have "created_count (sync_ad_groups_run a' dry ad ?ys') = 0 \<and>
        updated_count (sync_ad_groups_run a' dry ad ?ys') = 0 \<and>
        deleted_count (sync_ad_groups_run a' dry ad ?ys') = 0 \<and>
        errors_count (sync_ad_groups_run a' dry ad ?ys') = 0 \<and>
        decisions (sync_ad_groups_run a' dry ad ?ys') = [] \<and>
        calls (sync_ad_groups_run a' dry ad ?ys') = []"
  proof (cases "ad = []")
    case True
    then show ?thesis by (simp add: sync_ad_groups_run_def init_gstate_def)
  next
    case False
    from target_after_run [OF False, of ys a] obtain ids where
      ids: "length ids = length (creates ?D)" "\<forall>i \<in> set ids. Some i \<notin> y_id ` set ys"
      and T: "?ys' = filter (\<lambda>g. y_id g \<notin> d_id ` set (groups_to_delete (ad_object_guids ad) ys))
                   (map (patched ?D) ys @ map2 created_group ids (creates ?D))"
      by blast
    have "\<And>s. s \<in> set ad \<Longrightarrow> ad_decision (y360_groups_by_external_id ?ys') s = None"
      by (rule resync_in_sync [OF assms refl ids T])
    moreover have "groups_to_delete (ad_object_guids ad) ?ys' = []"
      by (rule resync_no_orphan [OF T])
    ultimately show ?thesis by (rule run_without_decisions)
  qed
  then show ?thesis by (simp only: returned_stats simp_thms)
qed

text \<open>
  The theorem at two source groups and three target groups: the first run patches a
  stale name, creates the missing group and deletes the orphan; the next snapshot holds
  the patched group, the untagged group and the new group; the second run changes
  nothing.
\<close>

theorem group_sync_idempotent_witness:
  "distinct (map objectGUID (filter (\<lambda>s. truthy (objectGUID s)) [sales, hr])) \<and>
   distinct (map y_id [stale_target, orphan, foreign]) \<and>
   foldl service_step [stale_target, orphan, foreign]
       (calls (sync_ad_groups_run (api_ok (\<lambda>_. [])) False [sales, hr]
                 [stale_target, orphan, foreign]))
     = [sales_target, foreign,
        \<lparr>y_id = Some 9, y_externalId = Some ''DDG;G2'', y_name = Some (Some ''HR''),
          y_label = Some (Some ''hr''), y_description = Some (Some ''People'')\<rparr>] \<and>
   sync_ad_groups_to_y360 (api_ok (\<lambda>_. [])) False [sales, hr]
       (foldl service_step [stale_target, orphan, foreign]
          (calls (sync_ad_groups_run (api_ok (\<lambda>_. [])) False [sales, hr]
                    [stale_target, orphan, foreign])))
     = (True, \<lparr>ad_groups_count = 2, y360_groups_count = 3, created_count = 0,
               updated_count = 0, deleted_count = 0, errors_count = 0, skipped_count = 0\<rparr>)"
proof -
  have h: "distinct (map objectGUID (filter (\<lambda>s. truthy (objectGUID s)) [sales, hr]))"
    "distinct (map y_id [stale_target, orphan, foreign])"
    by (simp_all add: fixtures hr_def truthy_def)
  have c: "calls (sync_ad_groups_run (api_ok (\<lambda>_. [])) False [sales, hr]
                 [stale_target, orphan, foreign])
     = [PatchGroup (Some 7) [(''name'', ''Sales'')],
        CreateGroup [(''name'', ''HR''), (''externalId'', ''DDG;G2''), (''label'', ''hr''),
                     (''description'', ''People'')],
        DeleteGroup (Some 8)]"
    by (simp add: fixtures hr_def group_defs string_defs)
  have t: "foldl service_step [stale_target, orphan, foreign]
       (calls (sync_ad_groups_run (api_ok (\<lambda>_. [])) False [sales, hr]
                 [stale_target, orphan, foreign]))
     = [sales_target, foreign,
        \<lparr>y_id = Some 9, y_externalId = Some ''DDG;G2'', y_name = Some (Some ''HR''),
          y_label = Some (Some ''hr''), y_description = Some (Some ''People'')\<rparr>]"
    unfolding c
    by (simp add: fixtures apply_patch_def created_group_def fresh_id_def)
  note I = group_sync_idempotent [OF h, of "api_ok (\<lambda>_. [])" False "api_ok (\<lambda>_. [])"]
  have r: "sync_ad_groups_to_y360 (api_ok (\<lambda>_. [])) False [sales, hr]
       (foldl service_step [stale_target, orphan, foreign]
          (calls (sync_ad_groups_run (api_ok (\<lambda>_. [])) False [sales, hr]
                    [stale_target, orphan, foreign])))
     = (True, \<lparr>ad_groups_count = 2, y360_groups_count = 3, created_count = 0,
               updated_count = 0, deleted_count = 0, errors_count = 0, skipped_count = 0\<rparr>)"
    unfolding t
    by (simp add: sync_ad_groups_to_y360_def group_stats.truncate_def fixtures hr_def group_defs
        string_defs)
  from I h t r show ?thesis by simp
qed

end
